theory Spec2Isabelle
  imports Main
begin

section \<open>Operation selection (cmd: validateCRUDOperations, parseCRUDOperations)\<close>

text \<open>
  A Go string that the program walks with \<^verbatim>\<open>for _, char := range s\<close> is modelled by
  the sequence of runes (Unicode code points) that the loop yields.
\<close>

type_synonym rune = nat

definition rune_of :: "char \<Rightarrow> rune" where
  "rune_of c = of_char c"

definition runes :: "string \<Rightarrow> rune list" where
  "runes s = map rune_of s"

text \<open>
  The three errors of \<^verbatim>\<open>validateCRUDOperations\<close>:
  \<^verbatim>\<open>CRUD operations cannot be empty\<close>,
  \<^verbatim>\<open>invalid character '%c', valid characters are: c, r, u, d\<close> and
  \<^verbatim>\<open>duplicate character '%c' in CRUD operations\<close>; the rune printed by \<^verbatim>\<open>%c\<close> is the
  constructor's argument.
\<close>

datatype crud_error =
    EmptyOperations
  | InvalidCharacter rune
  | DuplicateCharacter rune

definition validChars :: "rune \<Rightarrow> bool" where
  "validChars c \<longleftrightarrow>
     c = rune_of CHR ''c'' \<or> c = rune_of CHR ''r'' \<or> c = rune_of CHR ''u'' \<or> c = rune_of CHR ''d''"

text \<open>The loop of \<^verbatim>\<open>validateCRUDOperations\<close>; \<open>seen\<close> is the map \<^verbatim>\<open>map[rune]bool\<close>.\<close>

fun validateLoop :: "(rune \<Rightarrow> bool) \<Rightarrow> rune list \<Rightarrow> crud_error option" where
  "validateLoop seen [] = None"
| "validateLoop seen (c # cs) =
     (if \<not> validChars c then Some (InvalidCharacter c)
      else if seen c then Some (DuplicateCharacter c)
      else validateLoop (seen(c := True)) cs)"

definition validateCRUDOperations :: "rune list \<Rightarrow> crud_error option" where
  "validateCRUDOperations crud =
     (if crud = [] then Some EmptyOperations else validateLoop (\<lambda>_. False) crud)"

text \<open>The \<^verbatim>\<open>switch char\<close> of \<^verbatim>\<open>parseCRUDOperations\<close>: what one rune appends.\<close>

definition operationsOf :: "rune \<Rightarrow> string list" where
  "operationsOf c =
     (if c = rune_of CHR ''c'' then [''create'']
      else if c = rune_of CHR ''r'' then [''get'', ''list'']
      else if c = rune_of CHR ''u'' then [''update'']
      else if c = rune_of CHR ''d'' then [''delete'']
      else [])"

fun appendOperations :: "string list \<Rightarrow> rune list \<Rightarrow> string list" where
  "appendOperations operations [] = operations"
| "appendOperations operations (c # cs) = appendOperations (operations @ operationsOf c) cs"

text \<open>The second loop: keep an operation the first time it is seen.\<close>

fun uniqueLoop :: "(string \<Rightarrow> bool) \<Rightarrow> string list \<Rightarrow> string list \<Rightarrow> string list" where
  "uniqueLoop seen uniqueOps [] = uniqueOps"
| "uniqueLoop seen uniqueOps (op # ops) =
     (if \<not> seen op then uniqueLoop (seen(op := True)) (uniqueOps @ [op]) ops
      else uniqueLoop seen uniqueOps ops)"

definition parseCRUDOperations :: "rune list \<Rightarrow> string list" where
  "parseCRUDOperations crud = uniqueLoop (\<lambda>_. False) [] (appendOperations [] crud)"

text \<open>
  \<^verbatim>\<open>runGenerate\<close> first runs \<^verbatim>\<open>validateFlags\<close>, which rejects the \<^verbatim>\<open>--crud\<close> string
  through \<^verbatim>\<open>validateCRUDOperations\<close>, and only then \<^verbatim>\<open>generateFromSingleCRD\<close> stores
  \<^verbatim>\<open>parseCRUDOperations(crudOperations)\<close> in the configuration.
\<close>

definition selectedOperations :: "rune list \<Rightarrow> crud_error + string list" where
  "selectedOperations crud =
     (case validateCRUDOperations crud of
        Some e \<Rightarrow> Inl e
      | None \<Rightarrow> Inr (parseCRUDOperations crud))"

text \<open>
  \<^verbatim>\<open>ToolsetInfo.GetResourceOperations\<close>, on the \<^verbatim>\<open>SelectedOperations\<close> field of the
  configuration: a nil or empty slice means no selection was made.
\<close>

definition GetResourceOperations :: "string list \<Rightarrow> string list" where
  "GetResourceOperations SelectedOperations =
     (if length SelectedOperations > 0 then SelectedOperations
      else [''create'', ''get'', ''list'', ''update'', ''delete''])"

text \<open>
  The words of the specification, for comparison with the loop: deduplicate while preserving
  first-seen order.
\<close>

function firstSeen :: "'a list \<Rightarrow> 'a list" where
  "firstSeen [] = []"
| "firstSeen (x # xs) = x # firstSeen (filter (\<lambda>y. y \<noteq> x) xs)"
  by pat_completeness auto
termination
  by (relation "measure length") (auto simp: le_imp_less_Suc)

section \<open>The input boundary: JSONSchemaProps and the CustomResourceDefinition\<close>

text \<open>
  \<^verbatim>\<open>apiextensionsv1.JSONSchemaProps\<close>, with the fields the program reads. A Go string is a
  \<^typ>\<open>string\<close> here (its bytes). \<^verbatim>\<open>Properties\<close> is a Go map: the association list
  holds its entries in the order in which one \<^verbatim>\<open>range\<close> loop visits them, an order the
  language leaves open, so that a fact about the map has to hold for every arrangement of
  the list. \<^verbatim>\<open>Minimum\<close> and \<^verbatim>\<open>Maximum\<close> are \<^verbatim>\<open>*float64\<close>; the program only prints them
  with the \<^verbatim>\<open>%v\<close> verb, and the model carries the printed text. \<^verbatim>\<open>Enum\<close> holds the raw
  JSON text of each value. A pointer is an option, \<open>None\<close> for nil.
\<close>

datatype 's JSONSchemaPropsOrArray =
  JSONSchemaPropsOrArray (Schema: "'s option") (JSONSchemas: "'s list")

datatype 's JSONSchemaPropsOrBool =
  JSONSchemaPropsOrBool (Allows: bool) (Schema_b: "'s option")

datatype JSONSchemaProps = JSONSchemaProps
  (Type: string)
  (Format: string)
  (Description: string)
  (Enum: "string list")
  (Minimum: "string option")
  (Maximum: "string option")
  (MinLength: "int option")
  (MaxLength: "int option")
  (Pattern: string)
  (Properties: "(string \<times> JSONSchemaProps) list")
  (Required: "string list")
  (Items: "JSONSchemaProps JSONSchemaPropsOrArray option")
  (AdditionalProperties: "JSONSchemaProps JSONSchemaPropsOrBool option")

text \<open>Go composite literals that set a few fields and leave the rest zero.\<close>

definition schemaOfType :: "string \<Rightarrow> JSONSchemaProps" where
  "schemaOfType t = JSONSchemaProps t [] [] [] None None None None [] [] [] None None"

definition objectSchema :: "(string \<times> JSONSchemaProps) list \<Rightarrow> string list \<Rightarrow> JSONSchemaProps" where
  "objectSchema props req =
     JSONSchemaProps ''object'' [] [] [] None None None None [] props req None None"

definition schemaWithItems ::
  "string \<Rightarrow> JSONSchemaProps JSONSchemaPropsOrArray option \<Rightarrow> JSONSchemaProps" where
  "schemaWithItems t items = JSONSchemaProps t [] [] [] None None None None [] [] [] items None"

subsection \<open>CustomResourceDefinition and CRDInfo (pkg/analyzer/crd.go)\<close>

record CustomResourceValidation =
  OpenAPIV3Schema :: "JSONSchemaProps option"

record CustomResourceDefinitionVersion =
  Name_v :: string
  Storage :: bool
  Schema_v :: "CustomResourceValidation option"

record CustomResourceDefinitionNames =
  Plural :: string
  Singular :: string
  ShortNames :: "string list"
  Kind :: string
  ListKind :: string

record CustomResourceDefinitionSpec =
  Group :: string
  Names :: CustomResourceDefinitionNames
  Scope :: string
  Versions :: "CustomResourceDefinitionVersion list"

record CustomResourceDefinition =
  Name_crd :: string
  Spec :: CustomResourceDefinitionSpec

record CRDInfo =
  Name_info :: string
  Group_info :: string
  Kind_info :: string
  Version_info :: string
  Versions_info :: "string list"
  Plural_info :: string
  Singular_info :: string
  ShortNames_info :: "string list"
  ListKind_info :: string
  Schema_info :: "JSONSchemaProps option"
  OpenAPISchema_info :: "JSONSchemaProps option"
  CRD_info :: CustomResourceDefinition

text \<open>
  An error value is the message that \<^verbatim>\<open>fmt.Errorf\<close> builds. A run-time panic (the program
  reads through a nil pointer) is the second outcome; it is never wrapped, it unwinds.
\<close>

datatype error = Err string | NilPointerDereference

text \<open>\<^verbatim>\<open>fmt.Errorf(prefix + "%w", err)\<close>\<close>

fun wrapError :: "string \<Rightarrow> error \<Rightarrow> error" where
  "wrapError prefix (Err msg) = Err (prefix @ msg)"
| "wrapError prefix NilPointerDereference = NilPointerDereference"

text \<open>\<^verbatim>\<open>version.Schema != nil && version.Schema.OpenAPIV3Schema != nil\<close>\<close>

definition versionHasSchema :: "CustomResourceDefinitionVersion \<Rightarrow> bool" where
  "versionHasSchema version \<longleftrightarrow>
     (case Schema_v version of None \<Rightarrow> False | Some v \<Rightarrow> OpenAPIV3Schema v \<noteq> None)"

text \<open>The loop of \<^verbatim>\<open>ValidateCRD\<close> that looks for a version with a schema.\<close>

fun hasSchemaLoop :: "CustomResourceDefinitionVersion list \<Rightarrow> bool" where
  "hasSchemaLoop [] = False"
| "hasSchemaLoop (version # rest) = (if versionHasSchema version then True else hasSchemaLoop rest)"

definition ValidateCRD :: "CustomResourceDefinition option \<Rightarrow> error option" where
  "ValidateCRD crd =
     (case crd of
        None \<Rightarrow> Some (Err ''CRD is nil'')
      | Some c \<Rightarrow>
          if Group (Spec c) = [] then Some (Err ''CRD group is required'')
          else if Kind (Names (Spec c)) = [] then Some (Err ''CRD kind is required'')
          else if Plural (Names (Spec c)) = [] then Some (Err ''CRD plural name is required'')
          else if length (Versions (Spec c)) = 0 then Some (Err ''CRD must have at least one version'')
          else if \<not> hasSchemaLoop (Versions (Spec c))
            then Some (Err ''CRD must have at least one version with an OpenAPI v3 schema'')
          else None)"

text \<open>
  The version loop of \<^verbatim>\<open>AnalyzeCRD\<close>. Its state is the names appended to
  \<^verbatim>\<open>info.Versions\<close>, the pointer \<^verbatim>\<open>storageVersion\<close> and \<^verbatim>\<open>info.Version\<close>.
\<close>

fun versionLoop ::
  "string list \<times> CustomResourceDefinitionVersion option \<times> string
   \<Rightarrow> CustomResourceDefinitionVersion list
   \<Rightarrow> string list \<times> CustomResourceDefinitionVersion option \<times> string" where
  "versionLoop st [] = st"
| "versionLoop (names, storageVersion, name) (version # rest) =
     (if Storage version \<or> storageVersion = None
      then versionLoop (names @ [Name_v version], Some version, Name_v version) rest
      else versionLoop (names @ [Name_v version], storageVersion, name) rest)"

text \<open>
  \<^verbatim>\<open>storageVersion != nil && storageVersion.Schema != nil &&
  storageVersion.Schema.OpenAPIV3Schema != nil\<close>: the schema that is assigned, if any.
\<close>

definition storageSchema :: "CustomResourceDefinitionVersion option \<Rightarrow> JSONSchemaProps option" where
  "storageSchema storageVersion =
     (case storageVersion of
        None \<Rightarrow> None
      | Some version \<Rightarrow>
          (case Schema_v version of None \<Rightarrow> None | Some v \<Rightarrow> OpenAPIV3Schema v))"

definition AnalyzeCRD :: "CustomResourceDefinition option \<Rightarrow> error + CRDInfo" where
  "AnalyzeCRD crd =
     (case ValidateCRD crd of
        Some err \<Rightarrow> Inl (wrapError ''CRD validation failed: '' err)
      | None \<Rightarrow>
          (case crd of
             None \<Rightarrow> Inl NilPointerDereference \<comment> \<open>not reached: \<^verbatim>\<open>ValidateCRD\<close> rejects nil\<close>
           | Some c \<Rightarrow>
               let info = \<lparr> Name_info = Name_crd c,
                            Group_info = Group (Spec c),
                            Kind_info = Kind (Names (Spec c)),
                            Version_info = [],
                            Versions_info = [],
                            Plural_info = Plural (Names (Spec c)),
                            Singular_info = Singular (Names (Spec c)),
                            ShortNames_info = ShortNames (Names (Spec c)),
                            ListKind_info = ListKind (Names (Spec c)),
                            Schema_info = None,
                            OpenAPISchema_info = None,
                            CRD_info = c \<rparr>;
                   info = (if length (Versions (Spec c)) > 0
                           then (case versionLoop ([], None, []) (Versions (Spec c)) of
                                   (names, storageVersion, name) \<Rightarrow>
                                     info \<lparr> Versions_info := names, Version_info := name,
                                            Schema_info := storageSchema storageVersion,
                                            OpenAPISchema_info := storageSchema storageVersion \<rparr>)
                           else info);
                   info = (if ListKind_info info = []
                           then info \<lparr> ListKind_info := Kind_info info @ ''List'' \<rparr>
                           else info)
               in Inr info))"

text \<open>\<^verbatim>\<open>CRDInfo.GetAPIVersion\<close>\<close>

definition GetAPIVersion :: "CRDInfo \<Rightarrow> string" where
  "GetAPIVersion info =
     (if Group_info info = [] then Version_info info
      else Group_info info @ ''/'' @ Version_info info)"

subsection \<open>Library functions on strings\<close>

text \<open>
  \<^verbatim>\<open>strings.FieldsFunc\<close>: the maximal runs of elements that do not satisfy \<open>f\<close>; empty
  runs are dropped.
\<close>

fun fieldsLoop :: "('a \<Rightarrow> bool) \<Rightarrow> 'a list \<Rightarrow> 'a list \<Rightarrow> 'a list list" where
  "fieldsLoop f cur [] = (if cur = [] then [] else [cur])"
| "fieldsLoop f cur (r # rs) =
     (if f r then (if cur = [] then fieldsLoop f [] rs else cur # fieldsLoop f [] rs)
      else fieldsLoop f (cur @ [r]) rs)"

definition FieldsFunc :: "('a \<Rightarrow> bool) \<Rightarrow> 'a list \<Rightarrow> 'a list list" where
  "FieldsFunc f s = fieldsLoop f [] s"

text \<open>\<^verbatim>\<open>strings.HasSuffix\<close>\<close>

definition HasSuffix :: "'a list \<Rightarrow> 'a list \<Rightarrow> bool" where
  "HasSuffix s suffix \<longleftrightarrow>
     length s \<ge> length suffix \<and> drop (length s - length suffix) s = suffix"

text \<open>
  The analyzer's strings are byte strings. On them \<^verbatim>\<open>strings.ToLower\<close> and the title caser
  \<^verbatim>\<open>cases.Title(language.English)\<close> are modelled for ASCII text: a byte outside the ASCII
  letters is copied. The title caser walks the text once; it upper-cases a letter that is
  not in the middle of a word and lower-cases the others. A byte that is neither a letter,
  a digit, an underscore nor one of the mid-word marks (apostrophe, full stop, colon) ends
  the word, and so do two mid-word marks in a row.
\<close>

definition isUpperASCII :: "nat \<Rightarrow> bool" where
  "isUpperASCII n \<longleftrightarrow> 65 \<le> n \<and> n \<le> 90"

definition isLowerASCII :: "nat \<Rightarrow> bool" where
  "isLowerASCII n \<longleftrightarrow> 97 \<le> n \<and> n \<le> 122"

definition isMidASCII :: "nat \<Rightarrow> bool" where
  "isMidASCII n \<longleftrightarrow> n = 39 \<or> n = 46 \<or> n = 58"

definition isBreakASCII :: "nat \<Rightarrow> bool" where
  "isBreakASCII n \<longleftrightarrow>
     n < 128 \<and> \<not> isUpperASCII n \<and> \<not> isLowerASCII n \<and> \<not> isMidASCII n
     \<and> \<not> (48 \<le> n \<and> n \<le> 57) \<and> n \<noteq> 95"

definition lowerByte :: "char \<Rightarrow> char" where
  "lowerByte c = (if isUpperASCII (of_char c) then char_of (of_char c + (32::nat)) else c)"

definition upperByte :: "char \<Rightarrow> char" where
  "upperByte c = (if isLowerASCII (of_char c) then char_of (of_char c - (32::nat)) else c)"

definition ToLower_bytes :: "string \<Rightarrow> string" where
  "ToLower_bytes s = map lowerByte s"

text \<open>The caser's state: \<open>isMidWord\<close>, and whether the previous byte was a mid-word mark.\<close>

fun titleLoop_bytes :: "bool \<Rightarrow> bool \<Rightarrow> string \<Rightarrow> string" where
  "titleLoop_bytes isMidWord wasMid [] = []"
| "titleLoop_bytes isMidWord wasMid (c # cs) =
     (let n = (of_char c :: nat);
          isMidWord = (if wasMid \<and> isMidASCII n then False else isMidWord)
      in if isUpperASCII n \<or> isLowerASCII n
         then (if \<not> isMidWord then upperByte c else lowerByte c) # titleLoop_bytes True False cs
         else c # titleLoop_bytes (if isBreakASCII n then False else isMidWord) (isMidASCII n) cs)"

definition Title_bytes :: "string \<Rightarrow> string" where
  "Title_bytes s = titleLoop_bytes False False s"

text \<open>
  The verb \<^verbatim>\<open>%q\<close> (\<^verbatim>\<open>strconv.Quote\<close>) on a byte string: ASCII is quoted as Go does;
  a byte from \<open>0x80\<close> on is copied, as Go does for printable text in UTF-8.
\<close>

definition hexDigit :: "nat \<Rightarrow> char" where
  "hexDigit n = (if n < 10 then char_of (48 + n) else char_of (87 + n))"

definition quoteByte :: "char \<Rightarrow> string" where
  "quoteByte c =
     (let n = (of_char c :: nat) in
      if n = 34 then [CHR 0x5C, CHR 0x22]
      else if n = 92 then [CHR 0x5C, CHR 0x5C]
      else if 32 \<le> n \<and> n < 127 then [c]
      else if n \<ge> 128 then [c]
      else if n = 7 then [CHR 0x5C, CHR ''a'']
      else if n = 8 then [CHR 0x5C, CHR ''b'']
      else if n = 12 then [CHR 0x5C, CHR ''f'']
      else if n = 10 then [CHR 0x5C, CHR ''n'']
      else if n = 13 then [CHR 0x5C, CHR ''r'']
      else if n = 9 then [CHR 0x5C, CHR ''t'']
      else if n = 11 then [CHR 0x5C, CHR ''v'']
      else [CHR 0x5C, CHR ''x'', hexDigit (n div 16), hexDigit (n mod 16)])"

definition Quote :: "string \<Rightarrow> string" where
  "Quote s = [CHR 0x22] @ concat (map quoteByte s) @ [CHR 0x22]"

text \<open>\<^verbatim>\<open>strings.Contains\<close>\<close>

fun Contains :: "string \<Rightarrow> string \<Rightarrow> bool" where
  "Contains [] substr = (substr = [])"
| "Contains (c # cs) substr = (take (length substr) (c # cs) = substr \<or> Contains cs substr)"

section \<open>The schema analyzer (pkg/analyzer/schema.go)\<close>

text \<open>
  \<^verbatim>\<open>AnalyzeSchema\<close> hands out pointers to \<^verbatim>\<open>GoTypeInfo\<close> values, keeps them in its cache
  and writes through them later (\<^verbatim>\<open>propInfo.Required = ...\<close>), so the model has an explicit
  store: a pointer is an index into the list of allocated values. The map
  \<^verbatim>\<open>Properties\<close> is \<open>None\<close> while it is nil.
\<close>

type_synonym addr = nat

record GoTypeInfo =
  Name :: string
  JSONName :: string
  GoType :: string
  JSONTag :: string
  Description_t :: string
  Required_t :: bool
  Properties_t :: "(string \<rightharpoonup> addr) option"
  Items_t :: "addr option"

record SchemaAnalyzer =
  store :: "GoTypeInfo list"
  typeCache :: "string \<rightharpoonup> addr"

definition NewSchemaAnalyzer :: SchemaAnalyzer where
  "NewSchemaAnalyzer = \<lparr> store = [], typeCache = Map.empty \<rparr>"

definition generateItemTypeName :: "string \<Rightarrow> string" where
  "generateItemTypeName arrayType =
     (if HasSuffix arrayType ''s'' then take (length arrayType - 1) arrayType @ ''Item''
      else arrayType @ ''Item'')"

definition toGoName :: "string \<Rightarrow> string" where
  "toGoName name =
     concat (map (\<lambda>part. Title_bytes (ToLower_bytes part))
       (filter (\<lambda>part. part \<noteq> [])
         (FieldsFunc (\<lambda>r. r = CHR ''-'' \<or> r = CHR ''_'' \<or> r = CHR ''.'') name)))"

definition generatePropertyTypeName :: "string \<Rightarrow> string \<Rightarrow> string" where
  "generatePropertyTypeName parentType propName = parentType @ toGoName propName"

lemma size_Items_Schema [termination_simp]:
  "Items schema = Some items \<Longrightarrow> Schema items = Some item \<Longrightarrow> size item < size schema"
  by (cases schema; cases items) auto

lemma size_Properties [termination_simp]:
  "size_list (size_prod (\<lambda>_. 0) size) (Properties schema) < size schema"
  by (cases schema) auto

function getGoTypeFromSchema :: "JSONSchemaProps \<Rightarrow> string \<Rightarrow> error + string" where
  "getGoTypeFromSchema schema typeName =
     (if Type schema = ''string'' then
        (if length (Enum schema) > 0 then Inr ''string'' else Inr ''string'')
      else if Type schema = ''integer'' then
        (if Format schema = ''int64'' then Inr ''int64'' else Inr ''int32'')
      else if Type schema = ''number'' then
        (if Format schema = ''double'' then Inr ''float64'' else Inr ''float32'')
      else if Type schema = ''boolean'' then Inr ''bool''
      else if Type schema = ''array'' then
        (case Items schema of
           None \<Rightarrow> Inr ''[]interface{}''
         | Some items \<Rightarrow>
             (case Schema items of
                None \<Rightarrow> Inr ''[]interface{}''
              | Some item \<Rightarrow>
                  (case getGoTypeFromSchema item (generateItemTypeName typeName) of
                     Inl err \<Rightarrow> Inl err
                   | Inr itemType \<Rightarrow> Inr (''[]'' @ itemType))))
      else if Type schema = ''object'' then
        (if length (Properties schema) > 0 then Inr typeName
         else Inr ''map[string]interface{}'')
      else if Type schema = [] then
        (if length (Properties schema) > 0 then Inr typeName
         else
           (case Items schema of
              None \<Rightarrow> Inr ''interface{}''
            | Some items \<Rightarrow>
                (case Schema items of
                   None \<Rightarrow> Inl NilPointerDereference
                     \<comment> \<open>the call receives the nil \<^verbatim>\<open>schema.Items.Schema\<close> and reads \<^verbatim>\<open>schema.Type\<close>\<close>
                 | Some item \<Rightarrow>
                     (case getGoTypeFromSchema item (generateItemTypeName typeName) of
                        Inl err \<Rightarrow> Inl err
                      | Inr itemType \<Rightarrow> Inr (''[]'' @ itemType)))))
      else Inr ''interface{}'')"
  by pat_completeness auto
termination
  by (relation "measure (\<lambda>(schema, typeName). size schema)") (auto simp: size_Items_Schema)

declare getGoTypeFromSchema.simps [simp del]

definition isRequired :: "JSONSchemaProps \<Rightarrow> bool" where
  "isRequired schema = False"

definition generateJSONTag :: "string \<Rightarrow> JSONSchemaProps \<Rightarrow> string" where
  "generateJSONTag fieldName schema =
     (if \<not> isRequired schema then ''json:'' @ Quote (fieldName @ '',omitempty'')
      else ''json:'' @ Quote fieldName)"

text \<open>\<^verbatim>\<open>requiredFields\<close>, the map built from \<^verbatim>\<open>schema.Required\<close>; a missing key reads false.\<close>

fun requiredLoop :: "(string \<Rightarrow> bool) \<Rightarrow> string list \<Rightarrow> (string \<Rightarrow> bool)" where
  "requiredLoop requiredFields [] = requiredFields"
| "requiredLoop requiredFields (required # rest) = requiredLoop (requiredFields(required := True)) rest"

text \<open>
  The statements of \<^verbatim>\<open>AnalyzeSchema\<close> that touch memory: the allocation
  \<^verbatim>\<open>typeInfo := &GoTypeInfo{Name: typeName, JSONName: fieldName, Description: ...}\<close>, the
  writes through a pointer, and the cache update.
\<close>

definition newTypeInfo :: "string \<Rightarrow> string \<Rightarrow> JSONSchemaProps \<Rightarrow> SchemaAnalyzer \<Rightarrow> SchemaAnalyzer" where
  "newTypeInfo typeName fieldName schema s =
     s \<lparr> store := store s @
           [\<lparr> Name = typeName, JSONName = fieldName, GoType = [], JSONTag = [],
              Description_t = Description schema, Required_t = False,
              Properties_t = None, Items_t = None \<rparr>] \<rparr>"

definition setGoType :: "addr \<Rightarrow> string \<Rightarrow> SchemaAnalyzer \<Rightarrow> SchemaAnalyzer" where
  "setGoType p goType s = s \<lparr> store := (store s)[p := (store s ! p) \<lparr> GoType := goType \<rparr>] \<rparr>"

definition setJSONTag :: "addr \<Rightarrow> string \<Rightarrow> SchemaAnalyzer \<Rightarrow> SchemaAnalyzer" where
  "setJSONTag p tag s = s \<lparr> store := (store s)[p := (store s ! p) \<lparr> JSONTag := tag \<rparr>] \<rparr>"

definition makeProperties :: "addr \<Rightarrow> SchemaAnalyzer \<Rightarrow> SchemaAnalyzer" where
  "makeProperties p s = s \<lparr> store := (store s)[p := (store s ! p) \<lparr> Properties_t := Some Map.empty \<rparr>] \<rparr>"

definition setRequired :: "addr \<Rightarrow> bool \<Rightarrow> SchemaAnalyzer \<Rightarrow> SchemaAnalyzer" where
  "setRequired p b s = s \<lparr> store := (store s)[p := (store s ! p) \<lparr> Required_t := b \<rparr>] \<rparr>"

definition setProperty :: "addr \<Rightarrow> string \<Rightarrow> addr \<Rightarrow> SchemaAnalyzer \<Rightarrow> SchemaAnalyzer" where
  "setProperty p propName propInfo s =
     s \<lparr> store := (store s)[p := (store s ! p)
            \<lparr> Properties_t := Some ((case Properties_t (store s ! p) of
                                       None \<Rightarrow> Map.empty | Some m \<Rightarrow> m)(propName \<mapsto> propInfo)) \<rparr>] \<rparr>"

definition setItems :: "addr \<Rightarrow> addr \<Rightarrow> SchemaAnalyzer \<Rightarrow> SchemaAnalyzer" where
  "setItems p itemInfo s = s \<lparr> store := (store s)[p := (store s ! p) \<lparr> Items_t := Some itemInfo \<rparr>] \<rparr>"

definition setCache :: "string \<Rightarrow> addr \<Rightarrow> SchemaAnalyzer \<Rightarrow> SchemaAnalyzer" where
  "setCache cacheKey p s = s \<lparr> typeCache := (typeCache s)(cacheKey \<mapsto> p) \<rparr>"

text \<open>
  \<^verbatim>\<open>AnalyzeSchema\<close> and the loop over \<^verbatim>\<open>schema.Properties\<close> in it. The loop receives the
  entries in the order in which \<^verbatim>\<open>range\<close> visits them. After an error the analyzer is
  not used again (\<^verbatim>\<open>analyzeTypes\<close> returns the error), so an error carries no state.
\<close>

function AnalyzeSchema ::
    "SchemaAnalyzer \<Rightarrow> JSONSchemaProps option \<Rightarrow> string \<Rightarrow> string \<Rightarrow> error + (addr \<times> SchemaAnalyzer)"
  and propertiesLoop ::
    "SchemaAnalyzer \<Rightarrow> addr \<Rightarrow> string \<Rightarrow> (string \<Rightarrow> bool) \<Rightarrow> (string \<times> JSONSchemaProps) list
       \<Rightarrow> error + SchemaAnalyzer" where
  "AnalyzeSchema s None typeName fieldName = Inl (Err ''schema is nil'')"
| "AnalyzeSchema s (Some schema) typeName fieldName =
     (let cacheKey = typeName @ ''_'' @ fieldName in
      case typeCache s cacheKey of
        Some cached \<Rightarrow> Inr (cached, s)
      | None \<Rightarrow>
         (let typeInfo = length (store s);
              s = newTypeInfo typeName fieldName schema s
          in case getGoTypeFromSchema schema typeName of
               Inl err \<Rightarrow> Inl (wrapError (''failed to determine Go type for '' @ typeName @ '': '') err)
             | Inr goType \<Rightarrow>
                (let s = setGoType typeInfo goType s;
                     s = setJSONTag typeInfo (generateJSONTag fieldName schema) s
                 in case (if Type schema = ''object'' \<and> length (Properties schema) > 0
                          then propertiesLoop (makeProperties typeInfo s) typeInfo typeName
                                 (requiredLoop (\<lambda>_. False) (Required schema)) (Properties schema)
                          else Inr s) of
                      Inl err \<Rightarrow> Inl err
                    | Inr s \<Rightarrow>
                       (case (if Type schema = ''array'' then
                                (case Items schema of
                                   None \<Rightarrow> Inr s
                                 | Some items \<Rightarrow>
                                    (case Schema items of
                                       None \<Rightarrow> Inr s
                                     | Some item \<Rightarrow>
                                        (case AnalyzeSchema s (Some item) (generateItemTypeName typeName) [] of
                                           Inl err \<Rightarrow>
                                             Inl (wrapError (''failed to analyze array items for '' @ typeName @ '': '') err)
                                         | Inr (itemInfo, s) \<Rightarrow> Inr (setItems typeInfo itemInfo s))))
                              else Inr s) of
                          Inl err \<Rightarrow> Inl err
                        | Inr s \<Rightarrow> Inr (typeInfo, setCache cacheKey typeInfo s)))))"
| "propertiesLoop s typeInfo typeName requiredFields [] = Inr s"
| "propertiesLoop s typeInfo typeName requiredFields ((propName, propSchema) # rest) =
     (case AnalyzeSchema s (Some propSchema) (generatePropertyTypeName typeName propName) propName of
        Inl err \<Rightarrow> Inl (wrapError (''failed to analyze property '' @ propName @ '': '') err)
      | Inr (propInfo, s) \<Rightarrow>
          propertiesLoop
            (setProperty typeInfo propName propInfo (setRequired propInfo (requiredFields propName) s))
            typeInfo typeName requiredFields rest)"
  by pat_completeness auto
termination
  by (relation "measure (\<lambda>x. case x of
          Inl (s, schema, typeName, fieldName) \<Rightarrow> (case schema of None \<Rightarrow> 0 | Some sch \<Rightarrow> size sch)
        | Inr (s, typeInfo, typeName, requiredFields, props) \<Rightarrow>
            size_list (size_prod (\<lambda>_. 0) size) props)")
     (auto simp: size_Items_Schema size_Properties)

declare AnalyzeSchema.simps(2) [simp del]

text \<open>The analysis up to the point where \<^verbatim>\<open>typeInfo\<close> has its Go type and its JSON tag.\<close>

definition initTypeInfo ::
  "string \<Rightarrow> string \<Rightarrow> JSONSchemaProps \<Rightarrow> string \<Rightarrow> SchemaAnalyzer \<Rightarrow> SchemaAnalyzer" where
  "initTypeInfo typeName fieldName schema goType s =
     setJSONTag (length (store s)) (generateJSONTag fieldName schema)
       (setGoType (length (store s)) goType (newTypeInfo typeName fieldName schema s))"

text \<open>A node whose JSON tag is its JSON name followed by \<^verbatim>\<open>,omitempty\<close>, quoted.\<close>

definition omitemptyTag :: "GoTypeInfo \<Rightarrow> bool" where
  "omitemptyTag t \<longleftrightarrow> JSONTag t = ''json:'' @ Quote (JSONName t @ '',omitempty'')"

definition allTagged :: "SchemaAnalyzer \<Rightarrow> bool" where
  "allTagged s \<longleftrightarrow> (\<forall>t \<in> set (store s). omitemptyTag t)"

text \<open>
  The two blocks of \<^verbatim>\<open>AnalyzeSchema\<close> that recurse, named so that its equation can be
  read in steps: the block for object types with properties and the block for array types.
\<close>

definition objectBlock :: "SchemaAnalyzer \<Rightarrow> addr \<Rightarrow> string \<Rightarrow> JSONSchemaProps \<Rightarrow> error + SchemaAnalyzer" where
  "objectBlock s typeInfo typeName schema =
     (if Type schema = ''object'' \<and> length (Properties schema) > 0
      then propertiesLoop (makeProperties typeInfo s) typeInfo typeName
             (requiredLoop (\<lambda>_. False) (Required schema)) (Properties schema)
      else Inr s)"

definition arrayBlock :: "SchemaAnalyzer \<Rightarrow> addr \<Rightarrow> string \<Rightarrow> JSONSchemaProps \<Rightarrow> error + SchemaAnalyzer" where
  "arrayBlock s typeInfo typeName schema =
     (if Type schema = ''array'' then
        (case Items schema of
           None \<Rightarrow> Inr s
         | Some items \<Rightarrow>
            (case Schema items of
               None \<Rightarrow> Inr s
             | Some item \<Rightarrow>
                (case AnalyzeSchema s (Some item) (generateItemTypeName typeName) [] of
                   Inl err \<Rightarrow>
                     Inl (wrapError (''failed to analyze array items for '' @ typeName @ '': '') err)
                 | Inr (itemInfo, s) \<Rightarrow> Inr (setItems typeInfo itemInfo s))))
      else Inr s)"

text \<open>
  A state in which every cached pointer points into the store and no two cache keys share a
  pointer. The empty analyzer is such a state, and an analysis enters a pointer in the cache
  only at its end, for the value it has just allocated.
\<close>

definition wellFormed :: "SchemaAnalyzer \<Rightarrow> bool" where
  "wellFormed s \<longleftrightarrow>
     (\<forall>k a. typeCache s k = Some a \<longrightarrow> a < length (store s))
     \<and> (\<forall>k k' a. typeCache s k = Some a \<and> typeCache s k' = Some a \<longrightarrow> k = k')"

text \<open>The schema types that \<^verbatim>\<open>getGoTypeFromSchema\<close> maps to a primitive Go type.\<close>

definition isPrimitiveSchema :: "JSONSchemaProps \<Rightarrow> bool" where
  "isPrimitiveSchema schema \<longleftrightarrow>
     Type schema = ''string'' \<or> Type schema = ''integer'' \<or> Type schema = ''number''
     \<or> Type schema = ''boolean''"

text \<open>
  The state of the property loop of the node \<open>typeInfo\<close> after it has visited the properties
  \<open>D\<close>: each of them is in the node's map, cached under its own key, and carries the flag
  that \<open>requiredFields\<close> gives it.
\<close>

definition childrenDone ::
  "SchemaAnalyzer \<Rightarrow> addr \<Rightarrow> string \<Rightarrow> (string \<Rightarrow> bool) \<Rightarrow> string set \<Rightarrow> bool" where
  "childrenDone s typeInfo typeName requiredFields D \<longleftrightarrow>
     wellFormed s \<and> typeInfo < length (store s) \<and> typeInfo \<notin> ran (typeCache s)
     \<and> (\<exists>m. Properties_t (store s ! typeInfo) = Some m
          \<and> (\<forall>p \<in> D. \<exists>c. m p = Some c
                \<and> typeCache s (generatePropertyTypeName typeName p @ ''_'' @ p) = Some c
                \<and> Required_t (store s ! c) = requiredFields p))"

text \<open>
  How an analysis changes a well-formed state: the store grows, a new cache entry points to
  a value allocated meanwhile, and a value that the cache did not hold keeps its
  \<^verbatim>\<open>Required\<close> flag.
\<close>

definition extends :: "SchemaAnalyzer \<Rightarrow> SchemaAnalyzer \<Rightarrow> bool" where
  "extends s s' \<longleftrightarrow>
     wellFormed s' \<and> length (store s) \<le> length (store s')
     \<and> (\<forall>k b. typeCache s' k = Some b \<longrightarrow> typeCache s k = Some b \<or> length (store s) \<le> b)
     \<and> (\<forall>x < length (store s). x \<notin> ran (typeCache s) \<longrightarrow>
            Required_t (store s' ! x) = Required_t (store s ! x))"

section \<open>Emission of the schema literal (generator helpers: convertSchemaToGoCode)\<close>

definition tab :: string where
  "tab = [CHR 0x09]"

definition newline :: string where
  "newline = [CHR 0x0A]"

text \<open>\<^verbatim>\<open>strings.Repeat\<close>\<close>

definition Repeat :: "string \<Rightarrow> nat \<Rightarrow> string" where
  "Repeat s count = concat (replicate count s)"

text \<open>\<^verbatim>\<open>strings.ReplaceAll(s, `"`, `\"`)\<close>: every double quote gets a backslash in front.\<close>

definition escapeQuotes :: "string \<Rightarrow> string" where
  "escapeQuotes s = concat (map (\<lambda>c. if c = CHR 0x22 then [CHR 0x5C, CHR 0x22] else [c]) s)"

text \<open>The verb \<^verbatim>\<open>%v\<close> on an \<^verbatim>\<open>int64\<close>: decimal digits, with a minus sign when negative.\<close>

function digitsOf :: "nat \<Rightarrow> string" where
  "digitsOf n = (if n < 10 then [char_of (48 + n)] else digitsOf (n div 10) @ [char_of (48 + n mod 10)])"
  by pat_completeness auto
termination
  by (relation "measure id") auto

declare digitsOf.simps [simp del]

definition formatInt :: "int \<Rightarrow> string" where
  "formatInt i = (if i < 0 then ''-'' @ digitsOf (nat (- i)) else digitsOf (nat i))"

text \<open>
  The three appenders write to a \<^verbatim>\<open>strings.Builder\<close>; the model passes the text written so
  far and returns it extended.
\<close>

text \<open>The loop over \<^verbatim>\<open>schema.Enum\<close>.\<close>

fun enumLoop :: "string \<Rightarrow> nat \<Rightarrow> string list \<Rightarrow> string" where
  "enumLoop sb i [] = sb"
| "enumLoop sb i (val # rest) =
     enumLoop ((if i > 0 then sb @ '', '' else sb) @ val) (Suc i) rest"

definition appendBasicSchemaFields :: "string \<Rightarrow> JSONSchemaProps \<Rightarrow> string \<Rightarrow> string" where
  "appendBasicSchemaFields sb schema indentStr =
     (let sb = (if Type schema \<noteq> []
                then sb @ indentStr @ tab @ ''Type:        '' @ Quote (Type schema) @ '','' @ newline
                else sb);
          sb = (if Description schema \<noteq> []
                then sb @ indentStr @ tab @ ''Description: ''
                       @ Quote (escapeQuotes (Description schema)) @ '','' @ newline
                else sb);
          sb = (if length (Enum schema) > 0
                then enumLoop (sb @ indentStr @ tab @ ''Enum:        []any{'') 0 (Enum schema)
                       @ ''},'' @ newline
                else sb)
      in sb)"

definition appendSchemaValidation :: "string \<Rightarrow> JSONSchemaProps \<Rightarrow> string \<Rightarrow> string" where
  "appendSchemaValidation sb schema indentStr =
     (let sb = (case Minimum schema of None \<Rightarrow> sb
                | Some v \<Rightarrow> sb @ indentStr @ tab @ ''Minimum:     '' @ v @ '','' @ newline);
          sb = (case Maximum schema of None \<Rightarrow> sb
                | Some v \<Rightarrow> sb @ indentStr @ tab @ ''Maximum:     '' @ v @ '','' @ newline);
          sb = (case MinLength schema of None \<Rightarrow> sb
                | Some v \<Rightarrow> sb @ indentStr @ tab @ ''MinLength:   '' @ formatInt v @ '','' @ newline);
          sb = (case MaxLength schema of None \<Rightarrow> sb
                | Some v \<Rightarrow> sb @ indentStr @ tab @ ''MaxLength:   '' @ formatInt v @ '','' @ newline);
          sb = (if Pattern schema \<noteq> []
                then sb @ indentStr @ tab @ ''Pattern:     '' @ Quote (Pattern schema) @ '','' @ newline
                else sb)
      in sb)"

text \<open>The loop over \<^verbatim>\<open>schema.Required\<close>.\<close>

fun requiredCodeLoop :: "string \<Rightarrow> nat \<Rightarrow> string list \<Rightarrow> string" where
  "requiredCodeLoop sb i [] = sb"
| "requiredCodeLoop sb i (req # rest) =
     requiredCodeLoop ((if i > 0 then sb @ '', '' else sb) @ Quote req) (Suc i) rest"

lemma size_AdditionalProperties_Schema [termination_simp]:
  "AdditionalProperties schema = Some ap \<Longrightarrow> Schema_b ap = Some sub \<Longrightarrow> size sub < size schema"
  by (cases schema; cases ap) auto

lemma size_Properties_3:
  "3 * size_list (size_prod (\<lambda>_. 0) size) (Properties schema) < Suc (3 * size schema)"
  using size_Properties [of schema] by simp

lemma size_Items_Schema_3:
  "Items schema = Some items \<Longrightarrow> Schema items = Some item \<Longrightarrow> Suc (3 * size item) < 3 * size schema"
  using size_Items_Schema [of schema items item] by simp

lemma size_AdditionalProperties_Schema_3:
  "AdditionalProperties schema = Some ap \<Longrightarrow> Schema_b ap = Some sub \<Longrightarrow>
     Suc (3 * size sub) < 3 * size schema"
  using size_AdditionalProperties_Schema [of schema ap sub] by simp

text \<open>
  \<^verbatim>\<open>convertSchemaToGoCode\<close>, \<^verbatim>\<open>appendSchemaStructure\<close> and the loop
  \<^verbatim>\<open>for propName := range schema.Properties\<close> in the latter, which writes the entries in
  the order in which it visits them. \<^verbatim>\<open>normalizeSchemaInterface\<close> yields nil for anything
  that is not a schema; the callers in this file pass pointers, \<open>None\<close> when nil.
\<close>

function convertSchemaToGoCode :: "JSONSchemaProps option \<Rightarrow> nat \<Rightarrow> string"
  and appendSchemaStructure :: "string \<Rightarrow> JSONSchemaProps \<Rightarrow> string \<Rightarrow> nat \<Rightarrow> string"
  and propertiesCodeLoop :: "string \<Rightarrow> (string \<times> JSONSchemaProps) list \<Rightarrow> string \<Rightarrow> nat \<Rightarrow> string" where
  "convertSchemaToGoCode None indent = []"
| "convertSchemaToGoCode (Some schema) indent =
     (let indentStr = Repeat tab indent;
          sb = ''&jsonschema.Schema{'' @ newline;
          sb = appendBasicSchemaFields sb schema indentStr;
          sb = appendSchemaValidation sb schema indentStr;
          sb = appendSchemaStructure sb schema indentStr indent;
          sb = sb @ indentStr @ ''}''
      in sb)"
| "appendSchemaStructure sb schema indentStr indent =
     (let sb = (if length (Properties schema) > 0
                then propertiesCodeLoop
                       (sb @ indentStr @ tab @ ''Properties: map[string]*jsonschema.Schema{'' @ newline)
                       (Properties schema) indentStr indent
                     @ indentStr @ tab @ ''},'' @ newline
                else sb);
          sb = (if length (Required schema) > 0
                then requiredCodeLoop (sb @ indentStr @ tab @ ''Required:    []string{'') 0 (Required schema)
                       @ ''},'' @ newline
                else sb);
          sb = (case Items schema of
                  None \<Rightarrow> sb
                | Some items \<Rightarrow>
                   (case Schema items of
                      None \<Rightarrow> sb
                    | Some item \<Rightarrow>
                        sb @ indentStr @ tab @ ''Items: &jsonschema.Schema''
                           @ convertSchemaToGoCode (Some item) (indent + 1) @ '','' @ newline));
          sb = (case AdditionalProperties schema of
                  None \<Rightarrow> sb
                | Some ap \<Rightarrow>
                   (case Schema_b ap of
                      None \<Rightarrow> sb
                    | Some sub \<Rightarrow>
                        sb @ indentStr @ tab @ ''AdditionalProperties: &jsonschema.Schema''
                           @ convertSchemaToGoCode (Some sub) (indent + 1) @ '','' @ newline))
      in sb)"
| "propertiesCodeLoop sb [] indentStr indent = sb"
| "propertiesCodeLoop sb ((propName, propSchema) # rest) indentStr indent =
     propertiesCodeLoop
       (sb @ indentStr @ tab @ tab @ Quote propName @ '': ''
           @ convertSchemaToGoCode (Some propSchema) (indent + 2) @ '','' @ newline)
       rest indentStr indent"
  by pat_completeness auto
termination
  by (relation "measure (\<lambda>x. case x of
          Inl (schema, indent) \<Rightarrow> (case schema of None \<Rightarrow> 0 | Some sch \<Rightarrow> 3 * size sch + 2)
        | Inr (Inl (sb, schema, indentStr, indent)) \<Rightarrow> 3 * size schema + 1
        | Inr (Inr (sb, props, indentStr, indent)) \<Rightarrow> 3 * size_list (size_prod (\<lambda>_. 0) size) props)")
     (auto simp: size_Items_Schema_3 size_AdditionalProperties_Schema_3 size_Properties_3)

declare appendSchemaStructure.simps [simp del]

section \<open>The generator (pkg/generator: GenerateToolset, generateFile)\<close>

text \<open>
  The generator calls the operating system. The model threads the file system through it:
  the set of directories and the contents of the files, by path. \<^verbatim>\<open>os.Stat\<close> succeeds on a
  path that exists; \<^verbatim>\<open>os.MkdirAll\<close> fails on a path that is a file; \<^verbatim>\<open>os.Create\<close> fails on
  a path that is a directory and otherwise leaves an empty file. Parent directories and
  permissions are not modelled. \<^verbatim>\<open>filepath.Join\<close> is taken on a clean directory path.
\<close>

record FileSystem =
  dirs :: "string set"
  files :: "string \<rightharpoonup> string"

definition Join :: "string \<Rightarrow> string \<Rightarrow> string" where
  "Join dir name = dir @ ''/'' @ name"

definition Stat :: "string \<Rightarrow> FileSystem \<Rightarrow> bool" where
  "Stat path fs \<longleftrightarrow> path \<in> dirs fs \<or> files fs path \<noteq> None"

definition MkdirAll :: "string \<Rightarrow> FileSystem \<Rightarrow> error + FileSystem" where
  "MkdirAll path fs =
     (if files fs path \<noteq> None then Inl (Err (''mkdir '' @ path @ '': not a directory''))
      else Inr (fs \<lparr> dirs := insert path (dirs fs) \<rparr>))"

definition Create :: "string \<Rightarrow> FileSystem \<Rightarrow> error + FileSystem" where
  "Create path fs =
     (if path \<in> dirs fs then Inl (Err (''open '' @ path @ '': is a directory''))
      else Inr (fs \<lparr> files := (files fs)(path \<mapsto> []) \<rparr>))"

record GeneratorConfig =
  OutputDir :: string
  TemplateDir :: string
  PackageName :: string
  ModulePath :: string
  OverwriteFiles :: bool
  IncludeComments :: bool

text \<open>
  A parsed template is what \<^verbatim>\<open>Execute\<close> makes of the template data: the text it writes
  and the error it stops with, if any. The template files are not part of the sources; the
  set of templates is a field of the generator, by name. The template data is built from
  the configuration and the toolset information alone.
\<close>

record 't Generator =
  config :: GeneratorConfig
  templates :: "string \<rightharpoonup> (GeneratorConfig \<times> 't \<Rightarrow> string \<times> error option)"

definition createTemplateData :: "'t Generator \<Rightarrow> 't \<Rightarrow> GeneratorConfig \<times> 't" where
  "createTemplateData g toolsetInfo = (config g, toolsetInfo)"

definition generateFile ::
  "'t Generator \<Rightarrow> 't \<Rightarrow> string \<Rightarrow> string \<Rightarrow> FileSystem \<Rightarrow> error option \<times> FileSystem" where
  "generateFile g toolsetInfo templateName filename fs =
     (let outputPath = Join (OutputDir (config g)) filename in
      if \<not> OverwriteFiles (config g) \<and> Stat outputPath fs
      then (Some (Err (''file '' @ outputPath @ '' already exists and overwrite is disabled'')), fs)
      else
        (case templates g templateName of
           None \<Rightarrow> (Some (Err (''template '' @ templateName @ '' not found'')), fs)
         | Some tmpl \<Rightarrow>
            (let data = createTemplateData g toolsetInfo in
             case Create outputPath fs of
               Inl err \<Rightarrow>
                 (Some (wrapError (''failed to create output file '' @ outputPath @ '': '') err), fs)
             | Inr fs \<Rightarrow>
                 (case tmpl data of
                    (written, execErr) \<Rightarrow>
                      (let fs = fs \<lparr> files := (files fs)(outputPath \<mapsto> written) \<rparr> in
                       case execErr of
                         Some err \<Rightarrow>
                           (Some (wrapError (''failed to execute template '' @ templateName @ '': '') err), fs)
                       | None \<Rightarrow> (None, fs))))))"

text \<open>The list \<^verbatim>\<open>files\<close> of \<^verbatim>\<open>GenerateToolset\<close> and the loop over it.\<close>

definition generatedFiles :: "(string \<times> string) list" where
  "generatedFiles =
     [(''toolset.go.tmpl'', ''toolset.go''),
      (''types.go.tmpl'', ''types.go''),
      (''client.go.tmpl'', ''client.go''),
      (''handlers.go.tmpl'', ''handlers.go''),
      (''schema.go.tmpl'', ''schema.go''),
      (''doc.go.tmpl'', ''doc.go'')]"

fun generateLoop ::
  "'t Generator \<Rightarrow> 't \<Rightarrow> (string \<times> string) list \<Rightarrow> FileSystem \<Rightarrow> error option \<times> FileSystem" where
  "generateLoop g toolsetInfo [] fs = (None, fs)"
| "generateLoop g toolsetInfo ((template, filename) # rest) fs =
     (case generateFile g toolsetInfo template filename fs of
        (Some err, fs) \<Rightarrow> (Some (wrapError (''failed to generate '' @ filename @ '': '') err), fs)
      | (None, fs) \<Rightarrow> generateLoop g toolsetInfo rest fs)"

definition GenerateToolset ::
  "'t Generator \<Rightarrow> 't option \<Rightarrow> FileSystem \<Rightarrow> error option \<times> FileSystem" where
  "GenerateToolset g toolsetInfo fs =
     (case toolsetInfo of
        None \<Rightarrow> (Some (Err ''toolset info is required''), fs)
      | Some info \<Rightarrow>
         (case MkdirAll (OutputDir (config g)) fs of
            Inl err \<Rightarrow> (Some (wrapError ''failed to create output directory: '' err), fs)
          | Inr fs \<Rightarrow> generateLoop g info generatedFiles fs))"

section \<open>Case conversion (generator helpers)\<close>

text \<open>
  The helpers walk their argument rune by rune, so a string is a list of runes here. The
  package \<^verbatim>\<open>unicode\<close> decides a rune up to \<open>0xFF\<close> without its tables and looks a
  larger one up: \<^verbatim>\<open>IsUpper\<close> in the table of the upper-case letters (category Lu),
  \<^verbatim>\<open>ToLower\<close> in the table of the case mappings, \<^verbatim>\<open>IsSpace\<close> in the table of white
  space. The tables below hold the runes above \<open>0xFF\<close> of category Lu and the runes from
  \<open>0x80\<close> on that have a lower-case form, as the Unicode character database (version 14.0)
  lists them. An entry of \<open>unicode_Upper\<close> is a range with a stride, as in the library's
  range tables; an entry of \<open>unicode_toLower\<close> adds the distance to the lower-case rune.
\<close>

definition unicode_Upper :: "(nat \<times> nat \<times> nat) list" where
  "unicode_Upper = [
      (0x0100, 0x0136, 2), (0x0139, 0x0147, 2), (0x014A, 0x0178, 2), (0x0179, 0x017D, 2), (0x0181, 0x0182, 1),
      (0x0184, 0x0184, 1), (0x0186, 0x0187, 1), (0x0189, 0x018B, 1), (0x018E, 0x0191, 1), (0x0193, 0x0194, 1),
      (0x0196, 0x0198, 1), (0x019C, 0x019D, 1), (0x019F, 0x01A0, 1), (0x01A2, 0x01A6, 2), (0x01A7, 0x01A7, 1),
      (0x01A9, 0x01A9, 1), (0x01AC, 0x01AC, 1), (0x01AE, 0x01AF, 1), (0x01B1, 0x01B3, 1), (0x01B5, 0x01B5, 1),
      (0x01B7, 0x01B8, 1), (0x01BC, 0x01BC, 1), (0x01C4, 0x01CD, 3), (0x01CF, 0x01DB, 2), (0x01DE, 0x01EE, 2),
      (0x01F1, 0x01F1, 1), (0x01F4, 0x01F4, 1), (0x01F6, 0x01F8, 1), (0x01FA, 0x0232, 2), (0x023A, 0x023B, 1),
      (0x023D, 0x023E, 1), (0x0241, 0x0241, 1), (0x0243, 0x0246, 1), (0x0248, 0x024E, 2), (0x0370, 0x0370, 1),
      (0x0372, 0x0372, 1), (0x0376, 0x0376, 1), (0x037F, 0x037F, 1), (0x0386, 0x0386, 1), (0x0388, 0x038A, 1),
      (0x038C, 0x038C, 1), (0x038E, 0x038F, 1), (0x0391, 0x03A1, 1), (0x03A3, 0x03AB, 1), (0x03CF, 0x03CF, 1),
      (0x03D2, 0x03D4, 1), (0x03D8, 0x03EE, 2), (0x03F4, 0x03F4, 1), (0x03F7, 0x03F7, 1), (0x03F9, 0x03FA, 1),
      (0x03FD, 0x042F, 1), (0x0460, 0x0480, 2), (0x048A, 0x04C0, 2), (0x04C1, 0x04CD, 2), (0x04D0, 0x052E, 2),
      (0x0531, 0x0556, 1), (0x10A0, 0x10C5, 1), (0x10C7, 0x10C7, 1), (0x10CD, 0x10CD, 1), (0x13A0, 0x13F5, 1),
      (0x1C90, 0x1CBA, 1), (0x1CBD, 0x1CBF, 1), (0x1E00, 0x1E94, 2), (0x1E9E, 0x1EFE, 2), (0x1F08, 0x1F0F, 1),
      (0x1F18, 0x1F1D, 1), (0x1F28, 0x1F2F, 1), (0x1F38, 0x1F3F, 1), (0x1F48, 0x1F4D, 1), (0x1F59, 0x1F5F, 2),
      (0x1F68, 0x1F6F, 1), (0x1FB8, 0x1FBB, 1), (0x1FC8, 0x1FCB, 1), (0x1FD8, 0x1FDB, 1), (0x1FE8, 0x1FEC, 1),
      (0x1FF8, 0x1FFB, 1), (0x2102, 0x2102, 1), (0x2107, 0x2107, 1), (0x210B, 0x210D, 1), (0x2110, 0x2112, 1),
      (0x2115, 0x2115, 1), (0x2119, 0x211D, 1), (0x2124, 0x212A, 2), (0x212B, 0x212D, 1), (0x2130, 0x2133, 1),
      (0x213E, 0x213F, 1), (0x2145, 0x2145, 1), (0x2183, 0x2183, 1), (0x2C00, 0x2C2F, 1), (0x2C60, 0x2C60, 1),
      (0x2C62, 0x2C64, 1), (0x2C67, 0x2C6D, 2), (0x2C6E, 0x2C70, 1), (0x2C72, 0x2C72, 1), (0x2C75, 0x2C75, 1),
      (0x2C7E, 0x2C80, 1), (0x2C82, 0x2CE2, 2), (0x2CEB, 0x2CEB, 1), (0x2CED, 0x2CED, 1), (0x2CF2, 0x2CF2, 1),
      (0xA640, 0xA66C, 2), (0xA680, 0xA69A, 2), (0xA722, 0xA72E, 2), (0xA732, 0xA76E, 2), (0xA779, 0xA77D, 2),
      (0xA77E, 0xA786, 2), (0xA78B, 0xA78B, 1), (0xA78D, 0xA78D, 1), (0xA790, 0xA790, 1), (0xA792, 0xA792, 1),
      (0xA796, 0xA7AA, 2), (0xA7AB, 0xA7AE, 1), (0xA7B0, 0xA7B4, 1), (0xA7B6, 0xA7C4, 2), (0xA7C5, 0xA7C7, 1),
      (0xA7C9, 0xA7C9, 1), (0xA7D0, 0xA7D0, 1), (0xA7D6, 0xA7D6, 1), (0xA7D8, 0xA7D8, 1), (0xA7F5, 0xA7F5, 1),
      (0xFF21, 0xFF3A, 1), (0x10400, 0x10427, 1), (0x104B0, 0x104D3, 1), (0x10570, 0x1057A, 1), (0x1057C, 0x1058A, 1),
      (0x1058C, 0x10592, 1), (0x10594, 0x10595, 1), (0x10C80, 0x10CB2, 1), (0x118A0, 0x118BF, 1), (0x16E40, 0x16E5F, 1),
      (0x1D400, 0x1D419, 1), (0x1D434, 0x1D44D, 1), (0x1D468, 0x1D481, 1), (0x1D49C, 0x1D49C, 1), (0x1D49E, 0x1D49F, 1),
      (0x1D4A2, 0x1D4A2, 1), (0x1D4A5, 0x1D4A6, 1), (0x1D4A9, 0x1D4AC, 1), (0x1D4AE, 0x1D4B5, 1), (0x1D4D0, 0x1D4E9, 1),
      (0x1D504, 0x1D505, 1), (0x1D507, 0x1D50A, 1), (0x1D50D, 0x1D514, 1), (0x1D516, 0x1D51C, 1), (0x1D538, 0x1D539, 1),
      (0x1D53B, 0x1D53E, 1), (0x1D540, 0x1D544, 1), (0x1D546, 0x1D546, 1), (0x1D54A, 0x1D550, 1), (0x1D56C, 0x1D585, 1),
      (0x1D5A0, 0x1D5B9, 1), (0x1D5D4, 0x1D5ED, 1), (0x1D608, 0x1D621, 1), (0x1D63C, 0x1D655, 1), (0x1D670, 0x1D689, 1),
      (0x1D6A8, 0x1D6C0, 1), (0x1D6E2, 0x1D6FA, 1), (0x1D71C, 0x1D734, 1), (0x1D756, 0x1D76E, 1), (0x1D790, 0x1D7A8, 1),
      (0x1D7CA, 0x1D7CA, 1), (0x1E900, 0x1E921, 1)]"

definition unicode_toLower :: "(nat \<times> nat \<times> nat \<times> int) list" where
  "unicode_toLower = [
      (0x00C0, 0x00D6, 1, 32), (0x00D8, 0x00DE, 1, 32), (0x0100, 0x012E, 2, 1), (0x0130, 0x0130, 1, - 199),
      (0x0132, 0x0136, 2, 1), (0x0139, 0x0147, 2, 1), (0x014A, 0x0176, 2, 1), (0x0178, 0x0178, 1, - 121),
      (0x0179, 0x017D, 2, 1), (0x0181, 0x0181, 1, 210), (0x0182, 0x0184, 2, 1), (0x0186, 0x0186, 1, 206),
      (0x0187, 0x0187, 1, 1), (0x0189, 0x018A, 1, 205), (0x018B, 0x018B, 1, 1), (0x018E, 0x018E, 1, 79),
      (0x018F, 0x018F, 1, 202), (0x0190, 0x0190, 1, 203), (0x0191, 0x0191, 1, 1), (0x0193, 0x0193, 1, 205),
      (0x0194, 0x0194, 1, 207), (0x0196, 0x0196, 1, 211), (0x0197, 0x0197, 1, 209), (0x0198, 0x0198, 1, 1),
      (0x019C, 0x019C, 1, 211), (0x019D, 0x019D, 1, 213), (0x019F, 0x019F, 1, 214), (0x01A0, 0x01A4, 2, 1),
      (0x01A6, 0x01A6, 1, 218), (0x01A7, 0x01A7, 1, 1), (0x01A9, 0x01A9, 1, 218), (0x01AC, 0x01AC, 1, 1),
      (0x01AE, 0x01AE, 1, 218), (0x01AF, 0x01AF, 1, 1), (0x01B1, 0x01B2, 1, 217), (0x01B3, 0x01B5, 2, 1),
      (0x01B7, 0x01B7, 1, 219), (0x01B8, 0x01BC, 4, 1), (0x01C4, 0x01C4, 1, 2), (0x01C5, 0x01C5, 1, 1),
      (0x01C7, 0x01C7, 1, 2), (0x01C8, 0x01C8, 1, 1), (0x01CA, 0x01CA, 1, 2), (0x01CB, 0x01DB, 2, 1),
      (0x01DE, 0x01EE, 2, 1), (0x01F1, 0x01F1, 1, 2), (0x01F2, 0x01F4, 2, 1), (0x01F6, 0x01F6, 1, - 97),
      (0x01F7, 0x01F7, 1, - 56), (0x01F8, 0x021E, 2, 1), (0x0220, 0x0220, 1, - 130), (0x0222, 0x0232, 2, 1),
      (0x023A, 0x023A, 1, 10795), (0x023B, 0x023B, 1, 1), (0x023D, 0x023D, 1, - 163), (0x023E, 0x023E, 1, 10792),
      (0x0241, 0x0241, 1, 1), (0x0243, 0x0243, 1, - 195), (0x0244, 0x0244, 1, 69), (0x0245, 0x0245, 1, 71),
      (0x0246, 0x024E, 2, 1), (0x0370, 0x0372, 2, 1), (0x0376, 0x0376, 1, 1), (0x037F, 0x037F, 1, 116),
      (0x0386, 0x0386, 1, 38), (0x0388, 0x038A, 1, 37), (0x038C, 0x038C, 1, 64), (0x038E, 0x038F, 1, 63),
      (0x0391, 0x03A1, 1, 32), (0x03A3, 0x03AB, 1, 32), (0x03CF, 0x03CF, 1, 8), (0x03D8, 0x03EE, 2, 1),
      (0x03F4, 0x03F4, 1, - 60), (0x03F7, 0x03F7, 1, 1), (0x03F9, 0x03F9, 1, - 7), (0x03FA, 0x03FA, 1, 1),
      (0x03FD, 0x03FF, 1, - 130), (0x0400, 0x040F, 1, 80), (0x0410, 0x042F, 1, 32), (0x0460, 0x0480, 2, 1),
      (0x048A, 0x04BE, 2, 1), (0x04C0, 0x04C0, 1, 15), (0x04C1, 0x04CD, 2, 1), (0x04D0, 0x052E, 2, 1),
      (0x0531, 0x0556, 1, 48), (0x10A0, 0x10C5, 1, 7264), (0x10C7, 0x10CD, 6, 7264), (0x13A0, 0x13EF, 1, 38864),
      (0x13F0, 0x13F5, 1, 8), (0x1C90, 0x1CBA, 1, - 3008), (0x1CBD, 0x1CBF, 1, - 3008), (0x1E00, 0x1E94, 2, 1),
      (0x1E9E, 0x1E9E, 1, - 7615), (0x1EA0, 0x1EFE, 2, 1), (0x1F08, 0x1F0F, 1, - 8), (0x1F18, 0x1F1D, 1, - 8),
      (0x1F28, 0x1F2F, 1, - 8), (0x1F38, 0x1F3F, 1, - 8), (0x1F48, 0x1F4D, 1, - 8), (0x1F59, 0x1F5F, 2, - 8),
      (0x1F68, 0x1F6F, 1, - 8), (0x1F88, 0x1F8F, 1, - 8), (0x1F98, 0x1F9F, 1, - 8), (0x1FA8, 0x1FAF, 1, - 8),
      (0x1FB8, 0x1FB9, 1, - 8), (0x1FBA, 0x1FBB, 1, - 74), (0x1FBC, 0x1FBC, 1, - 9), (0x1FC8, 0x1FCB, 1, - 86),
      (0x1FCC, 0x1FCC, 1, - 9), (0x1FD8, 0x1FD9, 1, - 8), (0x1FDA, 0x1FDB, 1, - 100), (0x1FE8, 0x1FE9, 1, - 8),
      (0x1FEA, 0x1FEB, 1, - 112), (0x1FEC, 0x1FEC, 1, - 7), (0x1FF8, 0x1FF9, 1, - 128), (0x1FFA, 0x1FFB, 1, - 126),
      (0x1FFC, 0x1FFC, 1, - 9), (0x2126, 0x2126, 1, - 7517), (0x212A, 0x212A, 1, - 8383), (0x212B, 0x212B, 1, - 8262),
      (0x2132, 0x2132, 1, 28), (0x2160, 0x216F, 1, 16), (0x2183, 0x2183, 1, 1), (0x24B6, 0x24CF, 1, 26),
      (0x2C00, 0x2C2F, 1, 48), (0x2C60, 0x2C60, 1, 1), (0x2C62, 0x2C62, 1, - 10743), (0x2C63, 0x2C63, 1, - 3814),
      (0x2C64, 0x2C64, 1, - 10727), (0x2C67, 0x2C6B, 2, 1), (0x2C6D, 0x2C6D, 1, - 10780), (0x2C6E, 0x2C6E, 1, - 10749),
      (0x2C6F, 0x2C6F, 1, - 10783), (0x2C70, 0x2C70, 1, - 10782), (0x2C72, 0x2C75, 3, 1), (0x2C7E, 0x2C7F, 1, - 10815),
      (0x2C80, 0x2CE2, 2, 1), (0x2CEB, 0x2CED, 2, 1), (0x2CF2, 0xA640, 31054, 1), (0xA642, 0xA66C, 2, 1),
      (0xA680, 0xA69A, 2, 1), (0xA722, 0xA72E, 2, 1), (0xA732, 0xA76E, 2, 1), (0xA779, 0xA77B, 2, 1),
      (0xA77D, 0xA77D, 1, - 35332), (0xA77E, 0xA786, 2, 1), (0xA78B, 0xA78B, 1, 1), (0xA78D, 0xA78D, 1, - 42280),
      (0xA790, 0xA792, 2, 1), (0xA796, 0xA7A8, 2, 1), (0xA7AA, 0xA7AA, 1, - 42308), (0xA7AB, 0xA7AB, 1, - 42319),
      (0xA7AC, 0xA7AC, 1, - 42315), (0xA7AD, 0xA7AD, 1, - 42305), (0xA7AE, 0xA7AE, 1, - 42308), (0xA7B0, 0xA7B0, 1, - 42258),
      (0xA7B1, 0xA7B1, 1, - 42282), (0xA7B2, 0xA7B2, 1, - 42261), (0xA7B3, 0xA7B3, 1, 928), (0xA7B4, 0xA7C2, 2, 1),
      (0xA7C4, 0xA7C4, 1, - 48), (0xA7C5, 0xA7C5, 1, - 42307), (0xA7C6, 0xA7C6, 1, - 35384), (0xA7C7, 0xA7C9, 2, 1),
      (0xA7D0, 0xA7D6, 6, 1), (0xA7D8, 0xA7F5, 29, 1), (0xFF21, 0xFF3A, 1, 32), (0x10400, 0x10427, 1, 40),
      (0x104B0, 0x104D3, 1, 40), (0x10570, 0x1057A, 1, 39), (0x1057C, 0x1058A, 1, 39), (0x1058C, 0x10592, 1, 39),
      (0x10594, 0x10595, 1, 39), (0x10C80, 0x10CB2, 1, 64), (0x118A0, 0x118BF, 1, 32), (0x16E40, 0x16E5F, 1, 32),
      (0x1E900, 0x1E921, 1, 34)]"

fun inRanges :: "rune \<Rightarrow> (nat \<times> nat \<times> nat) list \<Rightarrow> bool" where
  "inRanges r [] = False"
| "inRanges r ((lo, hi, stride) # rest) =
     (if lo \<le> r \<and> r \<le> hi \<and> (r - lo) mod stride = 0 then True else inRanges r rest)"

fun caseDelta :: "rune \<Rightarrow> (nat \<times> nat \<times> nat \<times> int) list \<Rightarrow> int option" where
  "caseDelta r [] = None"
| "caseDelta r ((lo, hi, stride, delta) # rest) =
     (if lo \<le> r \<and> r \<le> hi \<and> (r - lo) mod stride = 0 then Some delta else caseDelta r rest)"

definition IsUpper :: "rune \<Rightarrow> bool" where
  "IsUpper r =
     (if r \<le> 0xFF
      then (0x41 \<le> r \<and> r \<le> 0x5A) \<or> (0xC0 \<le> r \<and> r \<le> 0xD6) \<or> (0xD8 \<le> r \<and> r \<le> 0xDE)
      else inRanges r unicode_Upper)"

definition ToLower :: "rune \<Rightarrow> rune" where
  "ToLower r =
     (if r \<le> 0x7F then (if 0x41 \<le> r \<and> r \<le> 0x5A then r + 32 else r)
      else (case caseDelta r unicode_toLower of None \<Rightarrow> r | Some delta \<Rightarrow> nat (int r + delta)))"

definition IsSpace :: "rune \<Rightarrow> bool" where
  "IsSpace r =
     (if r \<le> 0xFF
      then r = 9 \<or> r = 10 \<or> r = 11 \<or> r = 12 \<or> r = 13 \<or> r = 32 \<or> r = 0x85 \<or> r = 0xA0
      else r = 0x1680 \<or> (0x2000 \<le> r \<and> r \<le> 0x200A) \<or> r = 0x2028 \<or> r = 0x2029
           \<or> r = 0x202F \<or> r = 0x205F \<or> r = 0x3000)"

text \<open>\<^verbatim>\<open>strings.ToLower\<close> maps \<^verbatim>\<open>unicode.ToLower\<close> over the runes.\<close>

definition ToLower_runes :: "rune list \<Rightarrow> rune list" where
  "ToLower_runes s = map ToLower s"

text \<open>
  The title caser on runes, modelled as on bytes: letters are the ASCII letters, and a rune
  outside ASCII is copied and does not end a word.
\<close>

definition titleRune :: "rune \<Rightarrow> rune" where
  "titleRune r = (if isLowerASCII r then r - 32 else r)"

definition lowerRune :: "rune \<Rightarrow> rune" where
  "lowerRune r = (if isUpperASCII r then r + 32 else r)"

fun titleLoop :: "bool \<Rightarrow> bool \<Rightarrow> rune list \<Rightarrow> rune list" where
  "titleLoop isMidWord wasMid [] = []"
| "titleLoop isMidWord wasMid (r # rs) =
     (let isMidWord = (if wasMid \<and> isMidASCII r then False else isMidWord)
      in if isUpperASCII r \<or> isLowerASCII r
         then (if \<not> isMidWord then titleRune r else lowerRune r) # titleLoop True False rs
         else r # titleLoop (if isBreakASCII r then False else isMidWord) (isMidASCII r) rs)"

definition Title :: "rune list \<Rightarrow> rune list" where
  "Title s = titleLoop False False s"

text \<open>The separator test of \<^verbatim>\<open>toCamelCase\<close> and \<^verbatim>\<open>toPascalCase\<close>.\<close>

definition isSeparator :: "rune \<Rightarrow> bool" where
  "isSeparator r \<longleftrightarrow>
     r = rune_of CHR ''-'' \<or> r = rune_of CHR ''_'' \<or> r = rune_of CHR ''.'' \<or> IsSpace r"

text \<open>
  \<^verbatim>\<open>splitCamelCase\<close>: the loop carries the index, the words and the current word. The
  index of \<^verbatim>\<open>range\<close> counts bytes; only whether it is zero matters, and the model counts
  runes.
\<close>

fun splitLoop :: "nat \<Rightarrow> rune list list \<Rightarrow> rune list \<Rightarrow> rune list \<Rightarrow> rune list list" where
  "splitLoop i words currentWord [] =
     (if length currentWord > 0 then words @ [currentWord] else words)"
| "splitLoop i words currentWord (r # rs) =
     (if i > 0 \<and> IsUpper r
      then (if length currentWord > 0
            then splitLoop (Suc i) (words @ [currentWord]) [r] rs
            else splitLoop (Suc i) words (currentWord @ [r]) rs)
      else splitLoop (Suc i) words (currentWord @ [r]) rs)"

definition splitCamelCase :: "rune list \<Rightarrow> rune list list" where
  "splitCamelCase s = splitLoop 0 [] [] s"

text \<open>The loop of \<^verbatim>\<open>toCamelCase\<close> over \<^verbatim>\<open>parts[1:]\<close>, and that of \<^verbatim>\<open>toPascalCase\<close>.\<close>

fun titleParts :: "rune list \<Rightarrow> rune list list \<Rightarrow> rune list" where
  "titleParts result [] = result"
| "titleParts result (part # rest) =
     (if part \<noteq> [] then titleParts (result @ Title (ToLower_runes part)) rest
      else titleParts result rest)"

definition toCamelCase :: "rune list \<Rightarrow> rune list" where
  "toCamelCase s =
     (if s = [] then s
      else
        (let parts = FieldsFunc isSeparator s;
             parts = (if length parts = 1 then splitCamelCase (parts ! 0) else parts)
         in if length parts = 0 then s
            else titleParts (ToLower_runes (parts ! 0)) (tl parts)))"

definition toPascalCase :: "rune list \<Rightarrow> rune list" where
  "toPascalCase s =
     (if s = [] then s
      else
        (let parts = FieldsFunc isSeparator s;
             parts = (if length parts = 1 then splitCamelCase (parts ! 0) else parts)
         in titleParts [] parts))"

fun snakeLoop :: "nat \<Rightarrow> rune list \<Rightarrow> rune list \<Rightarrow> rune list" where
  "snakeLoop i result [] = result"
| "snakeLoop i result (r # rs) =
     (if IsUpper r
      then snakeLoop (Suc i) ((if i > 0 then result @ [rune_of CHR ''_''] else result) @ [ToLower r]) rs
      else if r = rune_of CHR ''-'' \<or> r = rune_of CHR ''.'' \<or> IsSpace r
      then snakeLoop (Suc i) (result @ [rune_of CHR ''_'']) rs
      else snakeLoop (Suc i) (result @ [r]) rs)"

definition toSnakeCase :: "rune list \<Rightarrow> rune list" where
  "toSnakeCase s = (if s = [] then s else snakeLoop 0 [] s)"

fun kebabLoop :: "nat \<Rightarrow> rune list \<Rightarrow> rune list \<Rightarrow> rune list" where
  "kebabLoop i result [] = result"
| "kebabLoop i result (r # rs) =
     (if IsUpper r
      then kebabLoop (Suc i) ((if i > 0 then result @ [rune_of CHR ''-''] else result) @ [ToLower r]) rs
      else if r = rune_of CHR ''_'' \<or> r = rune_of CHR ''.'' \<or> IsSpace r
      then kebabLoop (Suc i) (result @ [rune_of CHR ''-'']) rs
      else kebabLoop (Suc i) (result @ [r]) rs)"

definition toKebabCase :: "rune list \<Rightarrow> rune list" where
  "toKebabCase s = (if s = [] then s else kebabLoop 0 [] s)"

text \<open>The case variants of the specification and its \<open>toCase\<close>.\<close>

datatype caseVariant = Camel | Pascal | Snake | Kebab

fun toCase :: "caseVariant \<Rightarrow> rune list \<Rightarrow> rune list" where
  "toCase Camel s = toCamelCase s"
| "toCase Pascal s = toPascalCase s"
| "toCase Snake s = toSnakeCase s"
| "toCase Kebab s = toKebabCase s"

subsection \<open>One pass instead of split and title\<close>

text \<open>
  One step of the title caser: the rune it writes, and the state it leaves.
\<close>

definition titleOut :: "bool \<Rightarrow> bool \<Rightarrow> rune \<Rightarrow> rune" where
  "titleOut isMidWord wasMid r =
     (let isMidWord = (if wasMid \<and> isMidASCII r then False else isMidWord)
      in if isUpperASCII r \<or> isLowerASCII r
         then (if \<not> isMidWord then titleRune r else lowerRune r)
         else r)"

definition titleMid :: "bool \<Rightarrow> bool \<Rightarrow> rune \<Rightarrow> bool" where
  "titleMid isMidWord wasMid r =
     (let isMidWord = (if wasMid \<and> isMidASCII r then False else isMidWord)
      in if isUpperASCII r \<or> isLowerASCII r then True
         else if isBreakASCII r then False else isMidWord)"

definition titleWas :: "rune \<Rightarrow> bool" where
  "titleWas r = (if isUpperASCII r \<or> isLowerASCII r then False else isMidASCII r)"

fun titleState :: "bool \<Rightarrow> bool \<Rightarrow> rune list \<Rightarrow> bool \<times> bool" where
  "titleState isMidWord wasMid [] = (isMidWord, wasMid)"
| "titleState isMidWord wasMid (r # rs) = titleState (titleMid isMidWord wasMid r) (titleWas r) rs"

text \<open>
  Splitting a separator-free text with \<^verbatim>\<open>splitCamelCase\<close> and converting the words is one
  pass over the text: every rune is lower-cased and given to the title caser, whose state
  is reset in front of an upper-case rune that is not the first one. For \<^verbatim>\<open>toCamelCase\<close>
  the pass starts in the mode \<open>lowerOnly\<close> of the first word, which is only lower-cased.
\<close>

fun onePass :: "bool \<Rightarrow> bool \<Rightarrow> bool \<Rightarrow> nat \<Rightarrow> rune list \<Rightarrow> rune list" where
  "onePass lowerOnly isMidWord wasMid i [] = []"
| "onePass lowerOnly isMidWord wasMid i (r # rs) =
     (if i > 0 \<and> IsUpper r
      then titleOut False False (ToLower r)
             # onePass False (titleMid False False (ToLower r)) (titleWas (ToLower r)) (Suc i) rs
      else if lowerOnly then ToLower r # onePass True isMidWord wasMid (Suc i) rs
      else titleOut isMidWord wasMid (ToLower r)
             # onePass False (titleMid isMidWord wasMid (ToLower r)) (titleWas (ToLower r)) (Suc i) rs)"

text \<open>
  The relation between the state \<open>(p, pw)\<close> of the caser that produced a text and the state
  \<open>(g, gw)\<close> of the pass that reads it again.
\<close>

definition passInv :: "bool \<Rightarrow> bool \<Rightarrow> bool \<Rightarrow> bool \<Rightarrow> bool \<Rightarrow> nat \<Rightarrow> bool" where
  "passInv lowerOnly p pw g gw i \<longleftrightarrow>
     (if lowerOnly then \<not> p \<and> i > 0
      else (p \<longrightarrow> g = p \<and> gw = pw) \<and> (i = 0 \<longrightarrow> \<not> g))"

text \<open>The runes that \<^verbatim>\<open>toSnakeCase\<close> and \<^verbatim>\<open>toKebabCase\<close> copy.\<close>

definition snakeStable :: "rune \<Rightarrow> bool" where
  "snakeStable r \<longleftrightarrow>
     \<not> IsUpper r \<and> r \<noteq> rune_of CHR ''-'' \<and> r \<noteq> rune_of CHR ''.'' \<and> \<not> IsSpace r"

definition kebabStable :: "rune \<Rightarrow> bool" where
  "kebabStable r \<longleftrightarrow>
     \<not> IsUpper r \<and> r \<noteq> rune_of CHR ''_'' \<and> r \<noteq> rune_of CHR ''.'' \<and> \<not> IsSpace r"

subsection \<open>Example resources\<close>

text \<open>
  A resource with two versions, the second one flagged as the storage version, and copies of
  it with one identity field changed.
\<close>

definition exampleCRD :: CustomResourceDefinition where
  "exampleCRD =
     \<lparr> Name_crd = ''databases.storage.example.com'',
       Spec = \<lparr> Group = ''storage.example.com'',
                Names = \<lparr> Plural = ''databases'', Singular = ''database'', ShortNames = [],
                          Kind = ''Database'', ListKind = [] \<rparr>,
                Scope = ''Namespaced'',
                Versions =
                  [\<lparr> Name_v = ''v1alpha1'', Storage = False,
                      Schema_v = Some \<lparr> OpenAPIV3Schema = Some (schemaOfType ''string'') \<rparr> \<rparr>,
                   \<lparr> Name_v = ''v1'', Storage = True,
                      Schema_v = Some \<lparr> OpenAPIV3Schema = Some (schemaOfType ''object'') \<rparr> \<rparr>] \<rparr> \<rparr>"

definition withGroup :: "string \<Rightarrow> CustomResourceDefinition \<Rightarrow> CustomResourceDefinition" where
  "withGroup g c = c \<lparr> Spec := (Spec c) \<lparr> Group := g \<rparr> \<rparr>"

definition withKind :: "string \<Rightarrow> CustomResourceDefinition \<Rightarrow> CustomResourceDefinition" where
  "withKind k c = c \<lparr> Spec := (Spec c) \<lparr> Names := (Names (Spec c)) \<lparr> Kind := k \<rparr> \<rparr> \<rparr>"

definition withPlural :: "string \<Rightarrow> CustomResourceDefinition \<Rightarrow> CustomResourceDefinition" where
  "withPlural p c = c \<lparr> Spec := (Spec c) \<lparr> Names := (Names (Spec c)) \<lparr> Plural := p \<rparr> \<rparr> \<rparr>"

definition withVersions ::
  "CustomResourceDefinitionVersion list \<Rightarrow> CustomResourceDefinition \<Rightarrow> CustomResourceDefinition" where
  "withVersions vs c = c \<lparr> Spec := (Spec c) \<lparr> Versions := vs \<rparr> \<rparr>"

subsection \<open>Example schemas\<close>

text \<open>
  A node with no declared type whose \<^verbatim>\<open>items\<close> is written as a list of schemas: decoding
  such a document sets \<^verbatim>\<open>Items\<close> and leaves \<^verbatim>\<open>Items.Schema\<close> nil.
\<close>

definition itemsArrayForm :: JSONSchemaProps where
  "itemsArrayForm = schemaWithItems [] (Some (JSONSchemaPropsOrArray None [schemaOfType ''string'']))"

text \<open>
  The object schema with the properties \<^verbatim>\<open>name: string\<close> and \<^verbatim>\<open>replicas: integer\<close> and
  the required list \<^verbatim>\<open>[name]\<close>, in the two orders in which the property map can be
  visited.
\<close>

definition widgetSchema :: JSONSchemaProps where
  "widgetSchema =
     objectSchema [(''name'', schemaOfType ''string''), (''replicas'', schemaOfType ''integer'')] [''name'']"

definition widgetSchema_reordered :: JSONSchemaProps where
  "widgetSchema_reordered =
     objectSchema [(''replicas'', schemaOfType ''integer''), (''name'', schemaOfType ''string'')] [''name'']"

text \<open>
  Two objects in which different paths lead to one canonical type name: the properties
  \<^verbatim>\<open>max-size\<close> and \<^verbatim>\<open>max_size\<close> are both named \<^verbatim>\<open>WidgetMaxSize\<close>, and the elements of
  the arrays \<^verbatim>\<open>tag\<close> and \<^verbatim>\<open>tags\<close> are both named \<^verbatim>\<open>WidgetTagItem\<close>.
\<close>

definition tagSchema :: JSONSchemaProps where
  "tagSchema = objectSchema
     [(''tag'', schemaWithItems ''array'' (Some (JSONSchemaPropsOrArray (Some (schemaOfType ''string'')) []))),
      (''tags'', schemaWithItems ''array'' (Some (JSONSchemaPropsOrArray (Some (schemaOfType ''integer'')) [])))] []"

definition sizeSchema :: JSONSchemaProps where
  "sizeSchema = objectSchema
     [(''max-size'', schemaOfType ''string''), (''max_size'', schemaOfType ''integer'')] []"

text \<open>The object with the two arrays, its property map visited in the other order.\<close>

definition tagSchema_reordered :: JSONSchemaProps where
  "tagSchema_reordered = objectSchema
     [(''tags'', schemaWithItems ''array'' (Some (JSONSchemaPropsOrArray (Some (schemaOfType ''integer'')) []))),
      (''tag'', schemaWithItems ''array'' (Some (JSONSchemaPropsOrArray (Some (schemaOfType ''string'')) [])))] []"

subsection \<open>An example generator\<close>

text \<open>
  A generator for the directory \<^verbatim>\<open>out\<close> whose six templates each render one line that names
  the package, and the empty file system.
\<close>

definition exampleGenerator :: "string Generator" where
  "exampleGenerator =
     \<lparr> config = \<lparr> OutputDir = ''out'', TemplateDir = [], PackageName = ''widgets'',
                   ModulePath = ''github.com/test/module'', OverwriteFiles = False,
                   IncludeComments = True \<rparr>,
       templates = (\<lambda>name. if name \<in> fst ` set generatedFiles
                            then Some (\<lambda>(cfg, kind). (''package '' @ PackageName cfg, None))
                            else None) \<rparr>"

definition emptyFileSystem :: FileSystem where
  "emptyFileSystem = \<lparr> dirs = {}, files = Map.empty \<rparr>"

section \<open>Operation selection: properties\<close>

lemma rune_of_simps [simp]:
  "rune_of CHR ''c'' = 99" "rune_of CHR ''r'' = 114"
  "rune_of CHR ''u'' = 117" "rune_of CHR ''d'' = 100"
  by (simp_all add: rune_of_def)

lemma validateLoop_ok:
  "validateLoop seen cs = None \<longleftrightarrow>
     (\<forall>c \<in> set cs. validChars c \<and> \<not> seen c) \<and> distinct cs"
  by (induction cs arbitrary: seen) auto

lemma validateLoop_prefix:
  "\<forall>c \<in> set p. validChars c \<and> \<not> seen c \<Longrightarrow> distinct p \<Longrightarrow>
     validateLoop seen (p @ cs) = validateLoop (\<lambda>c. seen c \<or> c \<in> set p) cs"
proof (induction p arbitrary: seen)
  case Nil
  then show ?case by simp
next
  case (Cons a p)
  have "validateLoop (seen(a := True)) (p @ cs)
          = validateLoop (\<lambda>c. (seen(a := True)) c \<or> c \<in> set p) cs"
    using Cons.prems by (intro Cons.IH) auto
  moreover have "(\<lambda>c. (seen(a := True)) c \<or> c \<in> set p) = (\<lambda>c. seen c \<or> c \<in> set (a # p))"
    by auto
  ultimately show ?case using Cons.prems by simp
qed

lemma appendOperations_concat:
  "appendOperations operations cs = operations @ concat (map operationsOf cs)"
  by (induction cs arbitrary: operations) auto

lemma filter_seen_upd:
  "filter (\<lambda>x. \<not> (seen(op := True)) x) ops = filter (\<lambda>x. x \<noteq> op) (filter (\<lambda>x. \<not> seen x) ops)"
  by (induction ops) auto

lemma uniqueLoop_firstSeen:
  "uniqueLoop seen uniqueOps ops = uniqueOps @ firstSeen (filter (\<lambda>op. \<not> seen op) ops)"
proof (induction ops arbitrary: seen uniqueOps)
  case Nil
  then show ?case by simp
next
  case (Cons op ops)
  show ?case
  proof (cases "seen op")
    case True
    then show ?thesis using Cons.IH [of seen uniqueOps] by simp
  next
    case False
    then show ?thesis
      using Cons.IH [of "seen(op := True)" "uniqueOps @ [op]"]
      by (simp add: filter_seen_upd del: fun_upd_apply)
  qed
qed

lemma set_firstSeen: "set (firstSeen xs) = set xs"
proof (induction xs rule: firstSeen.induct)
  case 1
  then show ?case by simp
next
  case (2 x xs)
  then show ?case by auto
qed

lemma distinct_firstSeen: "distinct (firstSeen xs)"
proof (induction xs rule: firstSeen.induct)
  case 1
  then show ?case by simp
next
  case (2 x xs)
  then show ?case by (simp add: set_firstSeen)
qed

text \<open>
  Claim C2. Expanding the token string \<^verbatim>\<open>cr\<close> yields create, get, list; a single
  \<^verbatim>\<open>r\<close> is valid and yields get, list; the empty token string is the empty-operations
  error; when no selection reaches the configuration, and likewise for the flag's default
  \<^verbatim>\<open>crud\<close>, all five operations are generated. The scan stops at the first offending
  rune: after a prefix of valid, pairwise different runes, a rune outside c, r, u, d is the
  invalid-character error naming that rune, and a rune already in the prefix is the
  duplicate-character error naming it. A valid token string expands, in input order, to the
  flattened per-rune expansions, deduplicated keeping the first occurrence. The expansion
  itself does so for every token string, valid or not: \<^verbatim>\<open>parseCRUDOperations\<close> returns
  the flattened per-rune expansions in input order with every operation kept at its first
  occurrence only, so that \<^verbatim>\<open>crc\<close> expands to create, get, list and \<^verbatim>\<open>ccd\<close> to
  create, delete; its result never lists an operation twice.
\<close>

theorem operation_token_expansion:
  "selectedOperations (runes ''cr'') = Inr [''create'', ''get'', ''list'']
   \<and> selectedOperations (runes ''r'') = Inr [''get'', ''list'']
   \<and> selectedOperations [] = Inl EmptyOperations
   \<and> GetResourceOperations [] = [''create'', ''get'', ''list'', ''update'', ''delete'']
   \<and> selectedOperations (runes ''crud'') = Inr [''create'', ''get'', ''list'', ''update'', ''delete'']
   \<and> ((\<forall>x \<in> set p. validChars x) \<and> distinct p \<and> \<not> validChars c
        \<longrightarrow> selectedOperations (p @ c # cs) = Inl (InvalidCharacter c))
   \<and> ((\<forall>x \<in> set q. validChars x) \<and> distinct q \<and> d \<in> set q
        \<longrightarrow> selectedOperations (q @ d # ds) = Inl (DuplicateCharacter d))
   \<and> (crud \<noteq> [] \<and> (\<forall>x \<in> set crud. validChars x) \<and> distinct crud
        \<longrightarrow> selectedOperations crud = Inr (firstSeen (concat (map operationsOf crud))))
   \<and> parseCRUDOperations tokens = firstSeen (concat (map operationsOf tokens))
   \<and> distinct (parseCRUDOperations tokens)
   \<and> set (parseCRUDOperations tokens) = (\<Union>t \<in> set tokens. set (operationsOf t))
   \<and> parseCRUDOperations (runes ''crc'') = [''create'', ''get'', ''list'']
   \<and> parseCRUDOperations (runes ''ccd'') = [''create'', ''delete'']"
proof -
  have ex1: "selectedOperations (runes ''cr'') = Inr [''create'', ''get'', ''list'']"
    by (simp add: selectedOperations_def validateCRUDOperations_def parseCRUDOperations_def
        runes_def validChars_def operationsOf_def)
  have ex2: "selectedOperations (runes ''r'') = Inr [''get'', ''list'']"
    by (simp add: selectedOperations_def validateCRUDOperations_def parseCRUDOperations_def
        runes_def validChars_def operationsOf_def)
  have ex3: "selectedOperations [] = Inl EmptyOperations"
    by (simp add: selectedOperations_def validateCRUDOperations_def)
  have ex4: "GetResourceOperations [] = [''create'', ''get'', ''list'', ''update'', ''delete'']"
    by (simp add: GetResourceOperations_def)
  have ex5: "selectedOperations (runes ''crud'') = Inr [''create'', ''get'', ''list'', ''update'', ''delete'']"
    by (simp add: selectedOperations_def validateCRUDOperations_def parseCRUDOperations_def
        runes_def validChars_def operationsOf_def)
  have inv: "selectedOperations (p @ c # cs) = Inl (InvalidCharacter c)"
    if "\<forall>x \<in> set p. validChars x" "distinct p" "\<not> validChars c"
    using that by (simp add: selectedOperations_def validateCRUDOperations_def validateLoop_prefix)
  have dup: "selectedOperations (q @ d # ds) = Inl (DuplicateCharacter d)"
    if "\<forall>x \<in> set q. validChars x" "distinct q" "d \<in> set q"
    using that by (simp add: selectedOperations_def validateCRUDOperations_def validateLoop_prefix)
  have ok: "selectedOperations crud = Inr (firstSeen (concat (map operationsOf crud)))"
    if "crud \<noteq> []" "\<forall>x \<in> set crud. validChars x" "distinct crud"
  proof -
    have "validateLoop (\<lambda>_. False) crud = None"
      using that by (simp add: validateLoop_ok)
    then show ?thesis
      using that(1)
      by (simp add: selectedOperations_def validateCRUDOperations_def parseCRUDOperations_def
          appendOperations_concat uniqueLoop_firstSeen)
  qed
  have parse: "parseCRUDOperations tokens = firstSeen (concat (map operationsOf tokens))"
    by (simp add: parseCRUDOperations_def appendOperations_concat uniqueLoop_firstSeen)
  have dist: "distinct (parseCRUDOperations tokens)"
    unfolding parse by (rule distinct_firstSeen)
  have elems: "set (parseCRUDOperations tokens) = (\<Union>t \<in> set tokens. set (operationsOf t))"
    unfolding parse by (simp add: set_firstSeen)
  have ex6: "parseCRUDOperations (runes ''crc'') = [''create'', ''get'', ''list'']"
    by (simp add: parseCRUDOperations_def runes_def operationsOf_def)
  have ex7: "parseCRUDOperations (runes ''ccd'') = [''create'', ''delete'']"
    by (simp add: parseCRUDOperations_def runes_def operationsOf_def)
  show ?thesis using ex1 ex2 ex3 ex4 ex5 inv dup ok parse dist elems ex6 ex7 by blast
qed

theorem operation_token_expansion_witness:
  "selectedOperations (runes ''cxc'') = Inl (InvalidCharacter 120)
   \<and> selectedOperations (runes ''ccd'') = Inl (DuplicateCharacter 99)
   \<and> selectedOperations (runes ''dr'') = Inr [''delete'', ''get'', ''list'']"
  using operation_token_expansion [of "runes ''c''" "120" "runes ''c''" "runes ''c''" "99" "runes ''d''" "runes ''dr''"]
  by (simp add: runes_def rune_of_def validChars_def operationsOf_def)

section \<open>Storage version and resource identity: properties\<close>

lemma versionLoop_unflagged:
  "\<forall>w \<in> set post. \<not> Storage w \<Longrightarrow>
     versionLoop (names, Some sv, n) post = (names @ map Name_v post, Some sv, n)"
  by (induction post arbitrary: names) auto

lemma versionLoop_append:
  "versionLoop st (pre @ xs) = versionLoop (versionLoop st pre) xs"
proof (induction pre arbitrary: st)
  case Nil
  then show ?case by simp
next
  case (Cons a pre)
  then show ?case by (cases st) auto
qed

lemma versionLoop_names:
  "fst (versionLoop (names, sv, n) vs) = names @ map Name_v vs"
  by (induction vs arbitrary: names sv n) auto

lemma versionLoop_selects:
  assumes "Storage v \<or> pre = []" and "\<forall>w \<in> set post. \<not> Storage w"
  shows "versionLoop ([], None, []) (pre @ v # post) = (map Name_v (pre @ v # post), Some v, Name_v v)"
proof -
  obtain names sv n where st: "versionLoop ([], None, []) pre = (names, sv, n)"
    by (cases "versionLoop ([], None, []) pre") auto
  have names: "names = map Name_v pre"
    using versionLoop_names [of "[]" None "[]" pre] st by simp
  have sv: "pre = [] \<Longrightarrow> sv = None"
    using st by auto
  have "versionLoop (names, sv, n) (v # post) = versionLoop (names @ [Name_v v], Some v, Name_v v) post"
    using assms(1) sv by auto
  then show ?thesis
    using assms(2) by (simp add: versionLoop_append st names versionLoop_unflagged)
qed

lemma AnalyzeCRD_valid:
  assumes "ValidateCRD (Some c) = None"
  shows "\<exists>info. AnalyzeCRD (Some c) = Inr info
     \<and> (Versions_info info, Version_info info)
        = (fst (versionLoop ([], None, []) (Versions (Spec c))),
           snd (snd (versionLoop ([], None, []) (Versions (Spec c)))))
     \<and> Schema_info info = storageSchema (fst (snd (versionLoop ([], None, []) (Versions (Spec c)))))
     \<and> OpenAPISchema_info info = Schema_info info"
proof -
  have ne: "Versions (Spec c) \<noteq> []"
    using assms by (auto simp: ValidateCRD_def split: if_splits)
  show ?thesis
    using assms ne
    by (cases "versionLoop ([], None, []) (Versions (Spec c))")
       (simp add: AnalyzeCRD_def Let_def)
qed

text \<open>
  Claim C3. For a version list \<open>pre @ v # post\<close> in which no version after \<open>v\<close> is flagged
  \<^verbatim>\<open>storage: true\<close>, and \<open>v\<close> is flagged or is the first version, the version loop selects
  \<open>v\<close>: the flagged version (the last one, should several be flagged), or the first version
  when none is flagged. When the resource passes validation, \<^verbatim>\<open>AnalyzeCRD\<close> returns an info
  whose version is the name of \<open>v\<close> and whose schema is the schema of \<open>v\<close> and of no other
  version. The witness is the list v1alpha1 (not flagged), v1 (flagged).
\<close>

theorem storage_version_selection:
  "(Storage v \<or> pre = []) \<and> (\<forall>w \<in> set post. \<not> Storage w) \<longrightarrow>
     versionLoop ([], None, []) (pre @ v # post) = (map Name_v (pre @ v # post), Some v, Name_v v)
     \<and> (ValidateCRD (Some c) = None \<and> Versions (Spec c) = pre @ v # post \<longrightarrow>
          (\<exists>info. AnalyzeCRD (Some c) = Inr info
             \<and> Version_info info = Name_v v
             \<and> Schema_info info = storageSchema (Some v)
             \<and> OpenAPISchema_info info = storageSchema (Some v)
             \<and> Versions_info info = map Name_v (Versions (Spec c))))"
proof (intro impI conjI)
  assume h: "(Storage v \<or> pre = []) \<and> (\<forall>w \<in> set post. \<not> Storage w)"
  show sel: "versionLoop ([], None, []) (pre @ v # post) = (map Name_v (pre @ v # post), Some v, Name_v v)"
    using h by (intro versionLoop_selects) auto
  assume a: "ValidateCRD (Some c) = None \<and> Versions (Spec c) = pre @ v # post"
  from a have valid: "ValidateCRD (Some c) = None" by simp
  from AnalyzeCRD_valid [OF valid] obtain info where
    "AnalyzeCRD (Some c) = Inr info"
    "(Versions_info info, Version_info info)
        = (fst (versionLoop ([], None, []) (Versions (Spec c))),
           snd (snd (versionLoop ([], None, []) (Versions (Spec c)))))"
    "Schema_info info = storageSchema (fst (snd (versionLoop ([], None, []) (Versions (Spec c)))))"
    "OpenAPISchema_info info = Schema_info info"
    by blast
  then show "\<exists>info. AnalyzeCRD (Some c) = Inr info
             \<and> Version_info info = Name_v v
             \<and> Schema_info info = storageSchema (Some v)
             \<and> OpenAPISchema_info info = storageSchema (Some v)
             \<and> Versions_info info = map Name_v (Versions (Spec c))"
    using a sel by simp
qed

theorem storage_version_selection_witness:
  "\<exists>info. AnalyzeCRD (Some exampleCRD) = Inr info
      \<and> Version_info info = ''v1''
      \<and> Schema_info info = Some (schemaOfType ''object'')
      \<and> Versions_info info = [''v1alpha1'', ''v1'']"
  using storage_version_selection
    [of "\<lparr> Name_v = ''v1'', Storage = True,
            Schema_v = Some \<lparr> OpenAPIV3Schema = Some (schemaOfType ''object'') \<rparr> \<rparr>"
        "[\<lparr> Name_v = ''v1alpha1'', Storage = False,
            Schema_v = Some \<lparr> OpenAPIV3Schema = Some (schemaOfType ''string'') \<rparr> \<rparr>]"
        "[]" exampleCRD]
  by (auto simp: exampleCRD_def ValidateCRD_def versionHasSchema_def storageSchema_def)

text \<open>
  Claim C6, as stated, fails: \<^verbatim>\<open>ValidateCRD\<close> rejects an empty group with the message
  \<^verbatim>\<open>CRD group is required\<close>, and \<^verbatim>\<open>AnalyzeCRD\<close> returns that error.
\<close>

theorem empty_group_counterexample:
  "ValidateCRD (Some (withGroup [] exampleCRD)) = Some (Err ''CRD group is required'')
   \<and> AnalyzeCRD (Some (withGroup [] exampleCRD))
       = Inl (Err ''CRD validation failed: CRD group is required'')"
  by (simp add: withGroup_def exampleCRD_def ValidateCRD_def AnalyzeCRD_def)

text \<open>
  Claim C6, amended. An empty group, an empty kind, an empty plural name and a version list
  of length zero each make \<^verbatim>\<open>ValidateCRD\<close> fail, checked in this order, and \<^verbatim>\<open>AnalyzeCRD\<close>
  returns the wrapped error before it builds anything. Only \<^verbatim>\<open>GetAPIVersion\<close> tolerates an
  empty group: it then returns the bare version.
\<close>

theorem identity_validation:
  "(Group (Spec c1) = [] \<longrightarrow>
      ValidateCRD (Some c1) = Some (Err ''CRD group is required'')
      \<and> AnalyzeCRD (Some c1) = Inl (Err ''CRD validation failed: CRD group is required''))
   \<and> (Group (Spec c2) \<noteq> [] \<and> Kind (Names (Spec c2)) = [] \<longrightarrow>
      ValidateCRD (Some c2) = Some (Err ''CRD kind is required'')
      \<and> AnalyzeCRD (Some c2) = Inl (Err ''CRD validation failed: CRD kind is required''))
   \<and> (Group (Spec c3) \<noteq> [] \<and> Kind (Names (Spec c3)) \<noteq> [] \<and> Plural (Names (Spec c3)) = [] \<longrightarrow>
      ValidateCRD (Some c3) = Some (Err ''CRD plural name is required'')
      \<and> AnalyzeCRD (Some c3) = Inl (Err ''CRD validation failed: CRD plural name is required''))
   \<and> (Group (Spec c4) \<noteq> [] \<and> Kind (Names (Spec c4)) \<noteq> [] \<and> Plural (Names (Spec c4)) \<noteq> []
        \<and> length (Versions (Spec c4)) = 0 \<longrightarrow>
      ValidateCRD (Some c4) = Some (Err ''CRD must have at least one version'')
      \<and> AnalyzeCRD (Some c4) = Inl (Err ''CRD validation failed: CRD must have at least one version''))
   \<and> (Group (Spec c5) = [] \<or> Kind (Names (Spec c5)) = [] \<or> Plural (Names (Spec c5)) = []
        \<or> length (Versions (Spec c5)) = 0 \<longrightarrow>
      (\<exists>msg. ValidateCRD (Some c5) = Some (Err msg)
         \<and> AnalyzeCRD (Some c5) = Inl (Err (''CRD validation failed: '' @ msg))))
   \<and> (Group_info info = [] \<longrightarrow> GetAPIVersion info = Version_info info)"
  by (auto simp: ValidateCRD_def AnalyzeCRD_def GetAPIVersion_def)

theorem identity_validation_witness:
  "AnalyzeCRD (Some (withGroup [] exampleCRD)) = Inl (Err ''CRD validation failed: CRD group is required'')
   \<and> AnalyzeCRD (Some (withKind [] exampleCRD)) = Inl (Err ''CRD validation failed: CRD kind is required'')
   \<and> AnalyzeCRD (Some (withPlural [] exampleCRD)) = Inl (Err ''CRD validation failed: CRD plural name is required'')
   \<and> AnalyzeCRD (Some (withVersions [] exampleCRD)) = Inl (Err ''CRD validation failed: CRD must have at least one version'')
   \<and> (\<exists>msg. AnalyzeCRD (Some (withKind [] exampleCRD)) = Inl (Err (''CRD validation failed: '' @ msg)))
   \<and> GetAPIVersion \<lparr> Name_info = [], Group_info = [], Kind_info = ''Pod'', Version_info = ''v1'',
          Versions_info = [''v1''], Plural_info = ''pods'', Singular_info = ''pod'',
          ShortNames_info = [], ListKind_info = ''PodList'', Schema_info = None,
          OpenAPISchema_info = None, CRD_info = exampleCRD \<rparr> = ''v1''"
  using identity_validation
    [of "withGroup [] exampleCRD" "withKind [] exampleCRD" "withPlural [] exampleCRD"
        "withVersions [] exampleCRD" "withKind [] exampleCRD"
        "\<lparr> Name_info = [], Group_info = [], Kind_info = ''Pod'', Version_info = ''v1'',
          Versions_info = [''v1''], Plural_info = ''pods'', Singular_info = ''pod'',
          ShortNames_info = [], ListKind_info = ''PodList'', Schema_info = None,
          OpenAPISchema_info = None, CRD_info = exampleCRD \<rparr>"]
  by (simp add: withGroup_def withKind_def withPlural_def withVersions_def exampleCRD_def)

section \<open>The schema analyzer: properties\<close>

text \<open>
  Claim C7. A node that declares type \<^verbatim>\<open>array\<close> and has no item schema becomes
  \<^verbatim>\<open>[]interface{}\<close>. A node with no declared type, no properties and \<^verbatim>\<open>items\<close> present
  without an item schema does not: \<^verbatim>\<open>getGoTypeFromSchema\<close> passes the nil item schema to
  itself and reads its type, which is a nil-pointer panic, and \<^verbatim>\<open>AnalyzeSchema\<close> panics
  with it.
\<close>

theorem undeclared_array_without_item_schema:
  "getGoTypeFromSchema itemsArrayForm ''WidgetTags'' = Inl NilPointerDereference
   \<and> AnalyzeSchema NewSchemaAnalyzer (Some itemsArrayForm) ''WidgetTags'' ''tags'' = Inl NilPointerDereference
   \<and> getGoTypeFromSchema (schemaWithItems ''array'' (Some (JSONSchemaPropsOrArray None [schemaOfType ''string''])))
        ''WidgetTags'' = Inr ''[]interface{}''"
  by (simp add: itemsArrayForm_def schemaWithItems_def schemaOfType_def NewSchemaAnalyzer_def
      getGoTypeFromSchema.simps AnalyzeSchema.simps(2) newTypeInfo_def)

subsection \<open>The shape of an analysis\<close>

lemma AnalyzeSchema_hit:
  "typeCache s (typeName @ ''_'' @ fieldName) = Some cached \<Longrightarrow>
     AnalyzeSchema s (Some schema) typeName fieldName = Inr (cached, s)"
  by (simp add: AnalyzeSchema.simps(2))

lemma AnalyzeSchema_miss:
  assumes "typeCache s (typeName @ ''_'' @ fieldName) = None"
  shows "AnalyzeSchema s (Some schema) typeName fieldName =
    (case getGoTypeFromSchema schema typeName of
       Inl err \<Rightarrow> Inl (wrapError (''failed to determine Go type for '' @ typeName @ '': '') err)
     | Inr goType \<Rightarrow>
        (case objectBlock (initTypeInfo typeName fieldName schema goType s) (length (store s)) typeName schema of
           Inl err \<Rightarrow> Inl err
         | Inr s1 \<Rightarrow>
            (case arrayBlock s1 (length (store s)) typeName schema of
               Inl err \<Rightarrow> Inl err
             | Inr s2 \<Rightarrow>
                 Inr (length (store s), setCache (typeName @ ''_'' @ fieldName) (length (store s)) s2))))"
  by (subst AnalyzeSchema.simps(2))
     (simp only: Let_def assms option.case initTypeInfo_def objectBlock_def arrayBlock_def)

lemma AnalyzeSchema_Some_cases:
  assumes "AnalyzeSchema s (Some schema) typeName fieldName = Inr (a, s')"
  obtains
    (hit) "typeCache s (typeName @ ''_'' @ fieldName) = Some a" "s' = s"
  | (miss) goType s1 s2 where
      "typeCache s (typeName @ ''_'' @ fieldName) = None"
      "getGoTypeFromSchema schema typeName = Inr goType"
      "a = length (store s)"
      "objectBlock (initTypeInfo typeName fieldName schema goType s) a typeName schema = Inr s1"
      "arrayBlock s1 a typeName schema = Inr s2"
      "s' = setCache (typeName @ ''_'' @ fieldName) a s2"
proof (cases "typeCache s (typeName @ ''_'' @ fieldName)")
  case (Some c)
  with assms have "a = c" "s' = s" by (simp_all add: AnalyzeSchema.simps(2))
  with Some show ?thesis using hit by simp
next
  case None
  note eq = AnalyzeSchema_miss [OF None, of schema]
  obtain goType where g: "getGoTypeFromSchema schema typeName = Inr goType"
    using assms unfolding eq by (cases "getGoTypeFromSchema schema typeName") simp_all
  have eq1: "AnalyzeSchema s (Some schema) typeName fieldName =
      (case objectBlock (initTypeInfo typeName fieldName schema goType s) (length (store s)) typeName schema of
           Inl err \<Rightarrow> Inl err
         | Inr s1 \<Rightarrow>
            (case arrayBlock s1 (length (store s)) typeName schema of
               Inl err \<Rightarrow> Inl err
             | Inr s2 \<Rightarrow>
                 Inr (length (store s), setCache (typeName @ ''_'' @ fieldName) (length (store s)) s2)))"
    unfolding eq g by simp
  obtain s1 where p: "objectBlock (initTypeInfo typeName fieldName schema goType s) (length (store s)) typeName schema = Inr s1"
    using assms unfolding eq1
    by (cases "objectBlock (initTypeInfo typeName fieldName schema goType s) (length (store s)) typeName schema")
       simp_all
  have eq2: "AnalyzeSchema s (Some schema) typeName fieldName =
      (case arrayBlock s1 (length (store s)) typeName schema of
               Inl err \<Rightarrow> Inl err
             | Inr s2 \<Rightarrow>
                 Inr (length (store s), setCache (typeName @ ''_'' @ fieldName) (length (store s)) s2))"
    unfolding eq1 p by simp
  obtain s2 where i: "arrayBlock s1 (length (store s)) typeName schema = Inr s2"
    using assms unfolding eq2
    by (cases "arrayBlock s1 (length (store s)) typeName schema") simp_all
  have res: "a = length (store s)" "s' = setCache (typeName @ ''_'' @ fieldName) (length (store s)) s2"
    using assms unfolding eq2 i by auto
  show ?thesis
  proof (rule miss [of goType s1 s2])
    show "typeCache s (typeName @ ''_'' @ fieldName) = None" by (fact None)
    show "getGoTypeFromSchema schema typeName = Inr goType" by (fact g)
    show "a = length (store s)" by (fact res(1))
    show "objectBlock (initTypeInfo typeName fieldName schema goType s) a typeName schema = Inr s1"
      using p unfolding res(1) .
    show "arrayBlock s1 a typeName schema = Inr s2"
      using i unfolding res(1) .
    show "s' = setCache (typeName @ ''_'' @ fieldName) a s2" using res by simp
  qed
qed

lemma arrayBlock_cases:
  assumes "arrayBlock s typeInfo typeName schema = Inr s'"
  obtains
    (item) items item itemInfo s1 where
      "Type schema = ''array''" "Items schema = Some items" "Schema items = Some item"
      "AnalyzeSchema s (Some item) (generateItemTypeName typeName) [] = Inr (itemInfo, s1)"
      "s' = setItems typeInfo itemInfo s1"
  | (skip) "s' = s"
  using assms unfolding arrayBlock_def
  by (auto split: if_splits option.splits sum.splits prod.splits)

lemma propertiesLoop_Cons_cases:
  assumes "propertiesLoop s typeInfo typeName requiredFields ((propName, propSchema) # rest) = Inr s'"
  obtains propInfo s1 where
    "AnalyzeSchema s (Some propSchema) (generatePropertyTypeName typeName propName) propName = Inr (propInfo, s1)"
    "propertiesLoop (setProperty typeInfo propName propInfo (setRequired propInfo (requiredFields propName) s1))
       typeInfo typeName requiredFields rest = Inr s'"
  using assms by (auto split: sum.splits)

text \<open>
  A property of the analyzer's state that each of the memory statements keeps is kept by
  an analysis.
\<close>

lemma AnalyzeSchema_preserves:
  assumes init: "\<And>typeName fieldName schema goType s. I s \<Longrightarrow> I (initTypeInfo typeName fieldName schema goType s)"
    and mk: "\<And>p s. I s \<Longrightarrow> I (makeProperties p s)"
    and req: "\<And>p b s. I s \<Longrightarrow> I (setRequired p b s)"
    and sprop: "\<And>p n q s. I s \<Longrightarrow> I (setProperty p n q s)"
    and sitems: "\<And>p q s. I s \<Longrightarrow> I (setItems p q s)"
    and scache: "\<And>k p s. I s \<Longrightarrow> I (setCache k p s)"
  shows "\<forall>a s'. AnalyzeSchema s schema typeName fieldName = Inr (a, s') \<longrightarrow> I s \<longrightarrow> I s'"
    and "\<forall>s'. propertiesLoop s typeInfo typeName requiredFields props = Inr s' \<longrightarrow> I s \<longrightarrow> I s'"
proof (induction s schema typeName fieldName and s typeInfo typeName requiredFields props
    rule: AnalyzeSchema_propertiesLoop.induct)
  case (1 s typeName fieldName)
  then show ?case by simp
next
  case (2 s schema typeName fieldName)
  show ?case
  proof (intro allI impI)
    fix a s'
    assume res: "AnalyzeSchema s (Some schema) typeName fieldName = Inr (a, s')" and I: "I s"
    from res show "I s'"
    proof (cases rule: AnalyzeSchema_Some_cases)
      case hit
      then show ?thesis using I by simp
    next
      case (miss goType s1 s2)
      let ?s0 = "initTypeInfo typeName fieldName schema goType s"
      have I0: "I ?s0" using I by (rule init)
      have I1: "I s1"
      proof (cases "Type schema = ''object'' \<and> 0 < length (Properties schema)")
        case True
        have "\<forall>s'. propertiesLoop (makeProperties a ?s0) a typeName
               (requiredLoop (\<lambda>_. False) (Required schema)) (Properties schema) = Inr s'
              \<longrightarrow> I (makeProperties a ?s0) \<longrightarrow> I s'"
          using "2.IH"(1) [OF refl miss(1) refl refl miss(2) refl refl True]
          unfolding initTypeInfo_def miss(3) .
        then show ?thesis using miss(4) True mk [OF I0] by (simp add: objectBlock_def)
      next
        case False
        then show ?thesis using miss(4) I0 by (auto simp: objectBlock_def)
      qed
      have I2: "I s2"
        using miss(5)
      proof (cases rule: arrayBlock_cases)
        case (item its it itemInfo s1')
        have "\<forall>a s'. AnalyzeSchema s1 (Some it) (generateItemTypeName typeName) [] = Inr (a, s')
               \<longrightarrow> I s1 \<longrightarrow> I s'"
          using "2.IH"(2) [OF refl miss(1) refl refl miss(2) refl refl _ item(1) item(2) item(3), of s1]
            miss(4)
          unfolding initTypeInfo_def miss(3) objectBlock_def by simp
        then have "I s1'" using item(4) I1 by blast
        then show ?thesis unfolding item(5) by (rule sitems)
      next
        case skip
        then show ?thesis using I1 by simp
      qed
      show ?thesis unfolding miss(6) using I2 by (rule scache)
    qed
  qed
next
  case (3 s typeInfo typeName requiredFields)
  then show ?case by simp
next
  case (4 s typeInfo typeName requiredFields propName propSchema rest)
  show ?case
  proof (intro allI impI)
    fix s'
    assume res: "propertiesLoop s typeInfo typeName requiredFields ((propName, propSchema) # rest) = Inr s'"
      and I: "I s"
    from res show "I s'"
    proof (cases rule: propertiesLoop_Cons_cases)
      case (1 propInfo s1)
      have "I s1" using "4.IH"(1) 1(1) I by blast
      then have "I (setProperty typeInfo propName propInfo (setRequired propInfo (requiredFields propName) s1))"
        by (intro sprop req)
      then show ?thesis
        using "4.IH"(2) [OF 1(1) refl] 1(2) by blast
    qed
  qed
qed

subsection \<open>JSON tags\<close>

lemma Contains_append: "Contains (pre @ substr @ post) substr"
proof (induction pre)
  case Nil
  show ?case
  proof (cases "substr @ post")
    case Nil
    then show ?thesis by simp
  next
    case (Cons a list)
    have "take (length substr) (substr @ post) = substr" by simp
    then show ?thesis unfolding Cons by simp
  qed
next
  case (Cons a pre)
  then show ?case by simp
qed

lemma Quote_omitempty:
  "Quote (fieldName @ '',omitempty'')
     = ([CHR 0x22] @ concat (map quoteByte fieldName)) @ '',omitempty'' @ [CHR 0x22]"
  by (simp add: Quote_def quoteByte_def)

lemma omitemptyTag_Contains: "omitemptyTag t \<Longrightarrow> Contains (JSONTag t) '',omitempty''"
proof -
  assume "omitemptyTag t"
  then have "JSONTag t = (''json:'' @ [CHR 0x22] @ concat (map quoteByte (JSONName t))) @ '',omitempty'' @ [CHR 0x22]"
    unfolding omitemptyTag_def Quote_omitempty by simp
  then show ?thesis using Contains_append by metis
qed

lemma update_all:
  "\<forall>t \<in> set xs. P t \<Longrightarrow> (p < length xs \<Longrightarrow> P y) \<Longrightarrow> \<forall>t \<in> set (xs[p := y]). P t"
  by (cases "p < length xs") (auto simp: list_update_beyond dest: subsetD [OF set_update_subset_insert])

lemma allTagged_init: "allTagged s \<Longrightarrow> allTagged (initTypeInfo typeName fieldName schema goType s)"
  by (auto simp: allTagged_def initTypeInfo_def setJSONTag_def setGoType_def newTypeInfo_def
      generateJSONTag_def isRequired_def omitemptyTag_def)

lemma allTagged_update:
  assumes "allTagged s" and "p < length (store s) \<Longrightarrow> omitemptyTag y"
  shows "allTagged (s \<lparr> store := (store s)[p := y] \<rparr>)"
  using assms update_all [of "store s" omitemptyTag p y] by (simp add: allTagged_def)

lemma allTagged_ops:
  "allTagged s \<Longrightarrow> allTagged (makeProperties p s)"
  "allTagged s \<Longrightarrow> allTagged (setRequired p b s)"
  "allTagged s \<Longrightarrow> allTagged (setProperty p n q s)"
  "allTagged s \<Longrightarrow> allTagged (setItems p q s)"
  unfolding makeProperties_def setRequired_def setProperty_def setItems_def
  by (rule allTagged_update, assumption, simp add: allTagged_def omitemptyTag_def)+

lemma allTagged_setCache: "allTagged s \<Longrightarrow> allTagged (setCache k p s)"
  by (simp add: allTagged_def setCache_def)

lemma widget_returns: "isl (AnalyzeSchema NewSchemaAnalyzer (Some widgetSchema) ''Widget'' []) = False"
  by code_simp

lemma widget_required:
  "map Required_t (store (snd (projr (AnalyzeSchema NewSchemaAnalyzer (Some widgetSchema) ''Widget'' []))))
     = [False, True, False]"
  by code_simp

text \<open>
  Claim C10. \<^verbatim>\<open>isRequired\<close> is constantly false, so \<^verbatim>\<open>generateJSONTag\<close> always builds the
  tag from the field name followed by \<^verbatim>\<open>,omitempty\<close>, and the tag contains that text. The
  tag is written inside the node's own analysis and nothing writes it again: when every node
  in the store carries such a tag before an analysis, every node does so afterwards, the
  nodes whose \<^verbatim>\<open>Required\<close> flag the parent has set to true included. The witness is the
  \<^verbatim>\<open>name\<close> node of the example, required and tagged \<^verbatim>\<open>json:"name,omitempty"\<close>.
\<close>

theorem json_tag_always_omitempty:
  "isRequired schema = False
   \<and> generateJSONTag fieldName schema = ''json:'' @ Quote (fieldName @ '',omitempty'')
   \<and> Contains (generateJSONTag fieldName schema) '',omitempty''
   \<and> ((\<forall>t \<in> set (store s). omitemptyTag t)
        \<and> AnalyzeSchema s (Some node) typeName name = Inr (a, s')
       \<longrightarrow> (\<forall>t \<in> set (store s'). omitemptyTag t \<and> Contains (JSONTag t) '',omitempty''))"
proof (intro conjI impI)
  show "isRequired schema = False" by (simp add: isRequired_def)
  show tag: "generateJSONTag fieldName schema = ''json:'' @ Quote (fieldName @ '',omitempty'')"
    by (simp add: generateJSONTag_def isRequired_def)
  have "Contains ((''json:'' @ [CHR 0x22] @ concat (map quoteByte fieldName)) @ '',omitempty'' @ [CHR 0x22])
          '',omitempty''"
    by (rule Contains_append)
  then show "Contains (generateJSONTag fieldName schema) '',omitempty''"
    unfolding tag Quote_omitempty by simp
next
  assume h: "(\<forall>t \<in> set (store s). omitemptyTag t)
        \<and> AnalyzeSchema s (Some node) typeName name = Inr (a, s')"
  have "\<forall>a s'. AnalyzeSchema s (Some node) typeName name = Inr (a, s') \<longrightarrow> allTagged s \<longrightarrow> allTagged s'"
    by (rule AnalyzeSchema_preserves(1) [where I = allTagged])
       (simp_all add: allTagged_init allTagged_ops allTagged_setCache)
  then have "allTagged s'" using h by (auto simp: allTagged_def)
  then show "\<forall>t \<in> set (store s'). omitemptyTag t \<and> Contains (JSONTag t) '',omitempty''"
    by (auto simp: allTagged_def omitemptyTag_Contains)
qed

theorem json_tag_always_omitempty_witness:
  "Required_t (store (snd (projr (AnalyzeSchema NewSchemaAnalyzer (Some widgetSchema) ''Widget'' []))) ! 1) = True
   \<and> omitemptyTag (store (snd (projr (AnalyzeSchema NewSchemaAnalyzer (Some widgetSchema) ''Widget'' []))) ! 1)
   \<and> Contains (JSONTag (store (snd (projr (AnalyzeSchema NewSchemaAnalyzer (Some widgetSchema) ''Widget'' []))) ! 1))
        '',omitempty''"
proof -
  let ?r = "AnalyzeSchema NewSchemaAnalyzer (Some widgetSchema) ''Widget'' []"
  have r: "?r = Inr (fst (projr ?r), snd (projr ?r))"
    using widget_returns by (cases ?r) auto
  have s0: "\<forall>t \<in> set (store NewSchemaAnalyzer). omitemptyTag t"
    by (simp add: NewSchemaAnalyzer_def)
  have all: "\<forall>t \<in> set (store (snd (projr ?r))). omitemptyTag t \<and> Contains (JSONTag t) '',omitempty''"
    using json_tag_always_omitempty [of widgetSchema "[]" NewSchemaAnalyzer widgetSchema "''Widget''" "[]"
        "fst (projr ?r)" "snd (projr ?r)"] s0 r
    by blast
  have len: "length (store (snd (projr ?r))) = 3"
    using arg_cong [OF widget_required, of length] by simp
  then have mem: "store (snd (projr ?r)) ! 1 \<in> set (store (snd (projr ?r)))"
    by simp
  have "map Required_t (store (snd (projr ?r))) ! 1 = Required_t (store (snd (projr ?r)) ! 1)"
    using len by (intro nth_map) simp
  then have req: "Required_t (store (snd (projr ?r)) ! 1) = True"
    unfolding widget_required by simp
  show ?thesis
    using all mem req by blast
qed

subsection \<open>Name collisions\<close>

text \<open>
  Claim C5, as stated, fails. The analysis of either example returns normally. In the first
  the nodes of two different properties carry the same canonical name \<^verbatim>\<open>WidgetMaxSize\<close>. In
  the second the element type of \<^verbatim>\<open>tags\<close> (integers) has the cache key of the element type
  of \<^verbatim>\<open>tag\<close> (strings), and the node of the latter, at address 2, is handed out for both.
\<close>

theorem naming_collision_counterexample:
  "isl (AnalyzeSchema NewSchemaAnalyzer (Some sizeSchema) ''Widget'' []) = False
   \<and> map Name (store (snd (projr (AnalyzeSchema NewSchemaAnalyzer (Some sizeSchema) ''Widget'' []))))
       = [''Widget'', ''WidgetMaxSize'', ''WidgetMaxSize'']
   \<and> map GoType (store (snd (projr (AnalyzeSchema NewSchemaAnalyzer (Some sizeSchema) ''Widget'' []))))
       = [''Widget'', ''string'', ''int32'']
   \<and> isl (AnalyzeSchema NewSchemaAnalyzer (Some tagSchema) ''Widget'' []) = False
   \<and> map Name (store (snd (projr (AnalyzeSchema NewSchemaAnalyzer (Some tagSchema) ''Widget'' []))))
       = [''Widget'', ''WidgetTag'', ''WidgetTagItem'', ''WidgetTags'']
   \<and> map GoType (store (snd (projr (AnalyzeSchema NewSchemaAnalyzer (Some tagSchema) ''Widget'' []))))
       = [''Widget'', ''[]string'', ''string'', ''[]int32'']
   \<and> map Items_t (store (snd (projr (AnalyzeSchema NewSchemaAnalyzer (Some tagSchema) ''Widget'' []))))
       = [None, Some 2, None, Some 2]"
  by code_simp

lemma getGoTypeFromSchema_no_error: "getGoTypeFromSchema schema typeName \<noteq> Inl (Err msg)"
proof (induction schema typeName rule: getGoTypeFromSchema.induct)
  case (1 schema typeName)
  show ?case
    apply (subst getGoTypeFromSchema.simps)
    using 1 by (auto split: option.splits sum.splits)
qed

lemma wrapError_panic: "wrapError prefix e = NilPointerDereference \<longleftrightarrow> e = NilPointerDereference"
  by (cases e) auto

lemma arrayBlock_error:
  assumes "arrayBlock s typeInfo typeName schema = Inl e"
  obtains items item err where
    "Type schema = ''array''" "Items schema = Some items" "Schema items = Some item"
    "AnalyzeSchema s (Some item) (generateItemTypeName typeName) [] = Inl err"
    "e = wrapError (''failed to analyze array items for '' @ typeName @ '': '') err"
  using assms unfolding arrayBlock_def
  by (auto split: if_splits option.splits sum.splits prod.splits)

lemma AnalyzeSchema_no_error:
  "\<forall>e. AnalyzeSchema s schema typeName fieldName = Inl e \<longrightarrow> schema \<noteq> None \<longrightarrow> e = NilPointerDereference"
  "\<forall>e. propertiesLoop s typeInfo typeName requiredFields props = Inl e \<longrightarrow> e = NilPointerDereference"
proof (induction s schema typeName fieldName and s typeInfo typeName requiredFields props
    rule: AnalyzeSchema_propertiesLoop.induct)
  case (1 s typeName fieldName)
  then show ?case by simp
next
  case (2 s schema typeName fieldName)
  show ?case
  proof (intro allI impI)
    fix e
    assume res: "AnalyzeSchema s (Some schema) typeName fieldName = Inl e"
    have miss: "typeCache s (typeName @ ''_'' @ fieldName) = None"
      using res by (cases "typeCache s (typeName @ ''_'' @ fieldName)") (simp_all add: AnalyzeSchema_hit)
    note eq = AnalyzeSchema_miss [OF miss, of schema]
    show "e = NilPointerDereference"
    proof (cases "getGoTypeFromSchema schema typeName")
      case (Inl err)
      then have "err = NilPointerDereference"
        using getGoTypeFromSchema_no_error [of schema typeName] by (cases err) auto
      then show ?thesis
        using res by (simp add: eq Inl)
    next
      case (Inr goType)
      let ?s0 = "initTypeInfo typeName fieldName schema goType s"
      show ?thesis
      proof (cases "objectBlock ?s0 (length (store s)) typeName schema")
        case (Inl e1)
        have e: "e = e1" using res by (simp add: eq Inr Inl)
        have obj: "Type schema = ''object'' \<and> 0 < length (Properties schema)"
          using Inl by (auto simp: objectBlock_def split: if_splits)
        have "\<forall>e. propertiesLoop (makeProperties (length (store s)) ?s0) (length (store s)) typeName
               (requiredLoop (\<lambda>_. False) (Required schema)) (Properties schema) = Inl e
              \<longrightarrow> e = NilPointerDereference"
          using "2.IH"(1) [OF refl miss refl refl Inr refl refl obj]
          unfolding initTypeInfo_def .
        then show ?thesis using Inl obj e by (simp add: objectBlock_def)
      next
        case s1: (Inr s1)
        show ?thesis
        proof (cases "arrayBlock s1 (length (store s)) typeName schema")
          case (Inl e2)
          have e: "e = e2" using res by (simp add: eq Inr s1 Inl)
          from Inl show ?thesis
          proof (cases rule: arrayBlock_error)
            case (1 items item err)
            have "\<forall>e. AnalyzeSchema s1 (Some item) (generateItemTypeName typeName) [] = Inl e
                   \<longrightarrow> Some item \<noteq> None \<longrightarrow> e = NilPointerDereference"
              using "2.IH"(2) [OF refl miss refl refl Inr refl refl _ 1(1) 1(2) 1(3), of s1] s1
              unfolding initTypeInfo_def objectBlock_def by simp
            then have "err = NilPointerDereference" using 1(4) by simp
            then show ?thesis using e 1(5) by simp
          qed
        next
          case s2: (Inr s2)
          show ?thesis using res by (simp add: eq Inr s1 s2)
        qed
      qed
    qed
  qed
next
  case (3 s typeInfo typeName requiredFields)
  then show ?case by simp
next
  case (4 s typeInfo typeName requiredFields propName propSchema rest)
  show ?case
  proof (intro allI impI)
    fix e
    assume res: "propertiesLoop s typeInfo typeName requiredFields ((propName, propSchema) # rest) = Inl e"
    show "e = NilPointerDereference"
    proof (cases "AnalyzeSchema s (Some propSchema) (generatePropertyTypeName typeName propName) propName")
      case (Inl err)
      then have "err = NilPointerDereference" using "4.IH"(1) by simp
      then show ?thesis using res Inl by simp
    next
      case (Inr r)
      obtain propInfo s1 where r: "r = (propInfo, s1)" by (cases r)
      show ?thesis
        using "4.IH"(2) [OF Inr r [symmetric]] res Inr r by simp
    qed
  qed
qed

text \<open>
  Claim C5, amended. The analysis has no error for a name collision: for an absent schema
  node it returns the error \<^verbatim>\<open>schema is nil\<close>, and for a present one it returns a node, or it
  stops in the nil-pointer panic of claim C7; it returns no error value at all.
\<close>

theorem analysis_has_no_collision_error:
  "AnalyzeSchema s None typeName fieldName = Inl (Err ''schema is nil'')
   \<and> ((\<exists>a s'. AnalyzeSchema s (Some schema) typeName fieldName = Inr (a, s'))
        \<or> AnalyzeSchema s (Some schema) typeName fieldName = Inl NilPointerDereference)"
proof
  show "AnalyzeSchema s None typeName fieldName = Inl (Err ''schema is nil'')" by simp
  show "(\<exists>a s'. AnalyzeSchema s (Some schema) typeName fieldName = Inr (a, s'))
        \<or> AnalyzeSchema s (Some schema) typeName fieldName = Inl NilPointerDereference"
  proof (cases "AnalyzeSchema s (Some schema) typeName fieldName")
    case (Inl e)
    then show ?thesis using AnalyzeSchema_no_error(1) [of s "Some schema" typeName fieldName] by simp
  next
    case (Inr r)
    then show ?thesis by (cases r) simp
  qed
qed

subsection \<open>Cache keys of properties\<close>

lemma fieldsLoop_no_separator:
  "\<forall>c \<in> set cur. \<not> f c \<Longrightarrow> part \<in> set (fieldsLoop f cur s) \<Longrightarrow> c \<in> set part \<Longrightarrow> \<not> f c"
proof (induction s arbitrary: cur)
  case Nil
  then show ?case by (auto split: if_splits)
next
  case (Cons r rs)
  show ?case
  proof (cases "f r")
    case True
    then show ?thesis
      using Cons.prems Cons.IH [of "[]"] by (auto split: if_splits)
  next
    case False
    then show ?thesis
      using Cons.prems Cons.IH [of "cur @ [r]"] by auto
  qed
qed

lemma of_char_underscore: "(of_char CHR ''_'' :: nat) = 95"
  by simp

lemma lowerByte_underscore: "lowerByte c = CHR ''_'' \<longleftrightarrow> c = CHR ''_''"
proof (cases "isUpperASCII (of_char c)")
  case True
  have "char_of (of_char c + (32::nat)) \<noteq> CHR ''_''"
  proof
    assume "char_of (of_char c + (32::nat)) = CHR ''_''"
    then have "of_char (char_of (of_char c + (32::nat)) :: char) = (95 :: nat)" by simp
    then have "(of_char c + (32::nat)) mod 256 = 95" by simp
    moreover have "of_char c + (32::nat) < 256" using True unfolding isUpperASCII_def by linarith
    ultimately have "of_char c + (32::nat) = 95" by simp
    then show False using True unfolding isUpperASCII_def by linarith
  qed
  moreover have "c \<noteq> CHR ''_''"
    using True by (auto simp: isUpperASCII_def)
  ultimately show ?thesis using True by (simp add: lowerByte_def)
next
  case False
  then show ?thesis by (simp add: lowerByte_def)
qed

lemma lowerByte_underscore': "CHR ''_'' = lowerByte c \<longleftrightarrow> c = CHR ''_''"
  using lowerByte_underscore [of c] by auto

lemma upperByte_underscore: "upperByte c = CHR ''_'' \<longleftrightarrow> c = CHR ''_''"
proof (cases "isLowerASCII (of_char c)")
  case True
  have "char_of (of_char c - (32::nat)) \<noteq> CHR ''_''"
  proof
    assume "char_of (of_char c - (32::nat)) = CHR ''_''"
    then have "of_char (char_of (of_char c - (32::nat)) :: char) = (95 :: nat)" by simp
    then have "(of_char c - (32::nat)) mod 256 = 95" by simp
    moreover have "of_char c - (32::nat) < 256" using True unfolding isLowerASCII_def by linarith
    ultimately have "of_char c - (32::nat) = 95" by simp
    then show False using True unfolding isLowerASCII_def by linarith
  qed
  moreover have "c \<noteq> CHR ''_''"
    using True by (auto simp: isLowerASCII_def)
  ultimately show ?thesis using True by (simp add: upperByte_def)
next
  case False
  then show ?thesis by (simp add: upperByte_def)
qed

lemma upperByte_underscore': "CHR ''_'' = upperByte c \<longleftrightarrow> c = CHR ''_''"
  using upperByte_underscore [of c] by auto

lemma titleLoop_bytes_elements:
  "x \<in> set (titleLoop_bytes mid wasMid s) \<Longrightarrow> \<exists>c \<in> set s. x = upperByte c \<or> x = lowerByte c \<or> x = c"
proof (induction s arbitrary: mid wasMid)
  case Nil
  then show ?case by simp
next
  case (Cons c cs)
  let ?n = "of_char c :: nat"
  let ?mid = "if wasMid \<and> isMidASCII ?n then False else mid"
  show ?case
  proof (cases "isUpperASCII ?n \<or> isLowerASCII ?n")
    case True
    then have "titleLoop_bytes mid wasMid (c # cs)
        = (if \<not> ?mid then upperByte c else lowerByte c) # titleLoop_bytes True False cs"
      by (simp add: Let_def)
    then have "x = upperByte c \<or> x = lowerByte c \<or> x \<in> set (titleLoop_bytes True False cs)"
      using Cons.prems by (auto split: if_splits)
    then show ?thesis using Cons.IH [of True False] by auto
  next
    case False
    then have "titleLoop_bytes mid wasMid (c # cs)
        = c # titleLoop_bytes (if isBreakASCII ?n then False else ?mid) (isMidASCII ?n) cs"
      by (simp add: Let_def)
    then have "x = c \<or> x \<in> set (titleLoop_bytes (if isBreakASCII ?n then False else ?mid) (isMidASCII ?n) cs)"
      using Cons.prems by auto
    then show ?thesis
      using Cons.IH [of "if isBreakASCII ?n then False else ?mid" "isMidASCII ?n"] by auto
  qed
qed

lemma titleLoop_bytes_underscore:
  "CHR ''_'' \<in> set (titleLoop_bytes mid wasMid s) \<Longrightarrow> CHR ''_'' \<in> set s"
  using titleLoop_bytes_elements [of "CHR ''_''" mid wasMid s]
  by (auto simp: lowerByte_underscore' upperByte_underscore')

lemma toGoName_no_underscore: "CHR ''_'' \<notin> set (toGoName name)"
proof
  assume "CHR ''_'' \<in> set (toGoName name)"
  then obtain part where part: "part \<in> set (FieldsFunc (\<lambda>r. r = CHR ''-'' \<or> r = CHR ''_'' \<or> r = CHR ''.'') name)"
    and mem: "CHR ''_'' \<in> set (Title_bytes (ToLower_bytes part))"
    by (auto simp: toGoName_def)
  from mem have "CHR ''_'' \<in> set (ToLower_bytes part)"
    unfolding Title_bytes_def by (rule titleLoop_bytes_underscore)
  then have "CHR ''_'' \<in> set part"
    by (auto simp: ToLower_bytes_def lowerByte_underscore')
  then show False
    using fieldsLoop_no_separator [of "[]" "\<lambda>r. r = CHR ''-'' \<or> r = CHR ''_'' \<or> r = CHR ''.''" part name "CHR ''_''"] part
    by (simp add: FieldsFunc_def)
qed

lemma split_at_first:
  "x \<notin> set a \<Longrightarrow> x \<notin> set c \<Longrightarrow> a @ x # b = c @ x # d \<Longrightarrow> a = c \<and> b = d"
proof (induction a arbitrary: c)
  case Nil
  then show ?case by (cases c) auto
next
  case (Cons y a)
  then show ?case by (cases c) auto
qed

lemma propertyKey_inj:
  "generatePropertyTypeName typeName p @ ''_'' @ p = generatePropertyTypeName typeName q @ ''_'' @ q
     \<Longrightarrow> p = q"
  using split_at_first [of "CHR ''_''" "toGoName p" "toGoName q" p q] toGoName_no_underscore
  by (simp add: generatePropertyTypeName_def)

subsection \<open>Required flags\<close>

lemma requiredLoop_member:
  "requiredLoop requiredFields rs p \<longleftrightarrow> requiredFields p \<or> p \<in> set rs"
  by (induction rs arbitrary: requiredFields) auto

lemma store_ops [simp]:
  "typeCache (setCache k p s) = (typeCache s)(k \<mapsto> p)"
  "store (setCache k p s) = store s"
  "typeCache (setRequired p b s) = typeCache s"
  "typeCache (setProperty p n q s) = typeCache s"
  "typeCache (setItems p q s) = typeCache s"
  "typeCache (makeProperties p s) = typeCache s"
  "typeCache (initTypeInfo typeName fieldName schema goType s) = typeCache s"
  "length (store (setRequired p b s)) = length (store s)"
  "length (store (setProperty p n q s)) = length (store s)"
  "length (store (setItems p q s)) = length (store s)"
  "length (store (makeProperties p s)) = length (store s)"
  "length (store (initTypeInfo typeName fieldName schema goType s)) = Suc (length (store s))"
  by (simp_all add: setCache_def setRequired_def setProperty_def setItems_def makeProperties_def
      initTypeInfo_def setJSONTag_def setGoType_def newTypeInfo_def)

lemma store_initTypeInfo_old:
  "x < length (store s) \<Longrightarrow> store (initTypeInfo typeName fieldName schema goType s) ! x = store s ! x"
  by (simp add: initTypeInfo_def setJSONTag_def setGoType_def newTypeInfo_def nth_append)

lemma store_initTypeInfo_new:
  "store (initTypeInfo typeName fieldName schema goType s) ! length (store s)
     = \<lparr> Name = typeName, JSONName = fieldName, GoType = goType,
         JSONTag = generateJSONTag fieldName schema,
         Description_t = Description schema, Required_t = False,
         Properties_t = None, Items_t = None \<rparr>"
  by (simp add: initTypeInfo_def setJSONTag_def setGoType_def newTypeInfo_def nth_append)

lemma store_setRequired:
  "store (setRequired p b s) ! x
     = (if x = p \<and> p < length (store s) then (store s ! p) \<lparr> Required_t := b \<rparr> else store s ! x)"
  by (cases "p < length (store s)") (auto simp: setRequired_def nth_list_update list_update_beyond)

lemma store_setProperty:
  "store (setProperty p n q s) ! x
     = (if x = p \<and> p < length (store s)
        then (store s ! p) \<lparr> Properties_t := Some ((case Properties_t (store s ! p) of
                                       None \<Rightarrow> Map.empty | Some m \<Rightarrow> m)(n \<mapsto> q)) \<rparr>
        else store s ! x)"
  by (cases "p < length (store s)") (auto simp: setProperty_def nth_list_update list_update_beyond)

lemma store_makeProperties:
  "store (makeProperties p s) ! x
     = (if x = p \<and> p < length (store s) then (store s ! p) \<lparr> Properties_t := Some Map.empty \<rparr>
        else store s ! x)"
  by (cases "p < length (store s)") (auto simp: makeProperties_def nth_list_update list_update_beyond)

lemma getGoTypeFromSchema_primitive:
  "isPrimitiveSchema schema \<Longrightarrow> \<exists>goType. getGoTypeFromSchema schema typeName = Inr goType"
  by (subst getGoTypeFromSchema.simps) (auto simp: isPrimitiveSchema_def)

lemma AnalyzeSchema_primitive:
  assumes "isPrimitiveSchema schema"
  shows "(\<exists>c. typeCache s (typeName @ ''_'' @ fieldName) = Some c
            \<and> AnalyzeSchema s (Some schema) typeName fieldName = Inr (c, s))
       \<or> (\<exists>goType. typeCache s (typeName @ ''_'' @ fieldName) = None
            \<and> AnalyzeSchema s (Some schema) typeName fieldName
                = Inr (length (store s),
                       setCache (typeName @ ''_'' @ fieldName) (length (store s))
                         (initTypeInfo typeName fieldName schema goType s)))"
proof (cases "typeCache s (typeName @ ''_'' @ fieldName)")
  case (Some c)
  then show ?thesis by (simp add: AnalyzeSchema_hit)
next
  case None
  obtain goType where g: "getGoTypeFromSchema schema typeName = Inr goType"
    using getGoTypeFromSchema_primitive [OF assms] by blast
  have t: "Type schema \<noteq> ''object''" "Type schema \<noteq> ''array''"
    using assms by (auto simp: isPrimitiveSchema_def)
  show ?thesis
    using None g t by (auto simp: AnalyzeSchema_miss objectBlock_def arrayBlock_def)
qed

lemma childrenDone_step_state:
  assumes cd: "childrenDone s ti T req D" and pD: "p \<notin> D"
    and c: "typeCache s1 (generatePropertyTypeName T p @ ''_'' @ p) = Some c"
    and wf1: "wellFormed s1"
    and len: "length (store s) \<le> length (store s1)"
    and old: "\<forall>x < length (store s). store s1 ! x = store s ! x"
    and cache: "\<forall>k. k \<noteq> generatePropertyTypeName T p @ ''_'' @ p \<longrightarrow> typeCache s1 k = typeCache s k"
    and cti: "c \<noteq> ti" and ran: "ti \<notin> ran (typeCache s1)"
  shows "childrenDone (setProperty ti p c (setRequired c (req p) s1)) ti T req (insert p D)"
proof -
  let ?key = "\<lambda>q. generatePropertyTypeName T q @ ''_'' @ q"
  let ?s2 = "setProperty ti p c (setRequired c (req p) s1)"
  from cd obtain m where
    wf: "wellFormed s" and ti: "ti < length (store s)" and
    m: "Properties_t (store s ! ti) = Some m" and
    dn: "\<forall>q \<in> D. \<exists>d. m q = Some d \<and> typeCache s (?key q) = Some d \<and> Required_t (store s ! d) = req q"
    unfolding childrenDone_def by blast
  have ti1: "ti < length (store s1)" using ti len by simp
  have c1: "c < length (store s1)" using wf1 c unfolding wellFormed_def by blast
  have wf2: "wellFormed ?s2" using wf1 by (simp add: wellFormed_def)
  have ti_node: "store ?s2 ! ti = (store s ! ti) \<lparr> Properties_t := Some (m(p \<mapsto> c)) \<rparr>"
    using ti1 ti cti old m by (simp add: store_setProperty store_setRequired)
  have c_node: "Required_t (store ?s2 ! c) = req p"
    using c1 cti by (simp add: store_setProperty store_setRequired)
  have old_done: "\<exists>d. (m(p \<mapsto> c)) q = Some d \<and> typeCache ?s2 (?key q) = Some d
      \<and> Required_t (store ?s2 ! d) = req q" if q: "q \<in> D" for q
  proof -
    from dn q obtain d where d: "m q = Some d" "typeCache s (?key q) = Some d"
      "Required_t (store s ! d) = req q" by blast
    have qp: "q \<noteq> p" using q pD by auto
    then have kq: "?key q \<noteq> ?key p" using propertyKey_inj by blast
    then have d1: "typeCache s1 (?key q) = Some d" using cache d(2) by simp
    have dc: "d \<noteq> c" using wf1 c d1 kq unfolding wellFormed_def by blast
    have dti: "d \<noteq> ti" using ran d1 by (auto simp: ran_def)
    have dlen: "d < length (store s)" using wf d(2) unfolding wellFormed_def by blast
    have "store ?s2 ! d = store s ! d"
      using dc dti dlen old by (simp add: store_setProperty store_setRequired)
    then show ?thesis using d qp d1 by simp
  qed
  show ?thesis
    unfolding childrenDone_def
  proof (intro conjI)
    show "wellFormed ?s2" by (fact wf2)
    show "ti < length (store ?s2)" using ti1 by simp
    show "ti \<notin> ran (typeCache ?s2)" using ran by simp
    show "\<exists>m. Properties_t (store ?s2 ! ti) = Some m
          \<and> (\<forall>q \<in> insert p D. \<exists>d. m q = Some d
                \<and> typeCache ?s2 (?key q) = Some d
                \<and> Required_t (store ?s2 ! d) = req q)"
    proof (intro exI [of _ "m(p \<mapsto> c)"] conjI ballI)
      show "Properties_t (store ?s2 ! ti) = Some (m(p \<mapsto> c))" using ti_node by simp
      fix q assume q: "q \<in> insert p D"
      show "\<exists>d. (m(p \<mapsto> c)) q = Some d \<and> typeCache ?s2 (?key q) = Some d
           \<and> Required_t (store ?s2 ! d) = req q"
      proof (cases "q = p")
        case True
        have "(m(p \<mapsto> c)) p = Some c \<and> typeCache ?s2 (?key p) = Some c
           \<and> Required_t (store ?s2 ! c) = req p"
          using c c_node by simp
        then show ?thesis unfolding True by (rule exI)
      next
        case False
        then have "q \<in> D" using q by simp
        then show ?thesis by (rule old_done)
      qed
    qed
  qed
qed

lemma childrenDone_step:
  assumes cd: "childrenDone s ti T req D" and pD: "p \<notin> D" and prim: "isPrimitiveSchema ps"
  shows "\<exists>c s1. AnalyzeSchema s (Some ps) (generatePropertyTypeName T p) p = Inr (c, s1)
     \<and> childrenDone (setProperty ti p c (setRequired c (req p) s1)) ti T req (insert p D)"
proof -
  let ?key = "generatePropertyTypeName T p @ ''_'' @ p"
  from cd have wf: "wellFormed s" and ti: "ti < length (store s)" and ran: "ti \<notin> ran (typeCache s)"
    unfolding childrenDone_def by blast+
  from AnalyzeSchema_primitive [OF prim, of s "generatePropertyTypeName T p" p]
  show ?thesis
  proof (elim disjE exE conjE)
    fix c
    assume hit: "typeCache s ?key = Some c"
      and res: "AnalyzeSchema s (Some ps) (generatePropertyTypeName T p) p = Inr (c, s)"
    have "c \<noteq> ti" using hit ran by (auto simp: ran_def)
    then have "childrenDone (setProperty ti p c (setRequired c (req p) s)) ti T req (insert p D)"
      using childrenDone_step_state [OF cd pD hit wf] ran by simp
    then show ?thesis using res by blast
  next
    fix goType
    let ?c = "length (store s)"
    let ?s1 = "setCache ?key ?c (initTypeInfo (generatePropertyTypeName T p) p ps goType s)"
    assume miss: "typeCache s ?key = None"
      and res: "AnalyzeSchema s (Some ps) (generatePropertyTypeName T p) p = Inr (?c, ?s1)"
    have valid: "\<And>k a. typeCache s k = Some a \<Longrightarrow> a < length (store s)"
      using wf unfolding wellFormed_def by blast
    have inj: "\<And>k k' a. typeCache s k = Some a \<Longrightarrow> typeCache s k' = Some a \<Longrightarrow> k = k'"
      using wf unfolding wellFormed_def by blast
    have wf1: "wellFormed ?s1"
      unfolding wellFormed_def
    proof (intro conjI allI impI)
      fix k a assume "typeCache ?s1 k = Some a"
      then show "a < length (store ?s1)"
        using valid [of k a] by (auto split: if_splits)
    next
      fix k k' a assume "typeCache ?s1 k = Some a \<and> typeCache ?s1 k' = Some a"
      then show "k = k'"
        using valid [of k a] valid [of k' a] inj [of k a k'] by (auto split: if_splits)
    qed
    have ran1: "ti \<notin> ran (typeCache ?s1)"
      using ran ti by (auto simp: ran_def split: if_splits)
    have "childrenDone (setProperty ti p ?c (setRequired ?c (req p) ?s1)) ti T req (insert p D)"
    proof (rule childrenDone_step_state [OF cd pD _ wf1 _ _ _ _ ran1])
      show "typeCache ?s1 ?key = Some ?c" by simp
      show "length (store s) \<le> length (store ?s1)" by simp
      show "\<forall>x<length (store s). store ?s1 ! x = store s ! x"
        by (simp add: store_initTypeInfo_old)
      show "\<forall>k. k \<noteq> ?key \<longrightarrow> typeCache ?s1 k = typeCache s k" by simp
      show "?c \<noteq> ti" using ti by simp
    qed
    then show ?thesis using res by blast
  qed
qed

lemma propertiesLoop_flat:
  assumes "childrenDone s ti T req D" "distinct (map fst props)" "fst ` set props \<inter> D = {}"
    "\<forall>(p, ps) \<in> set props. isPrimitiveSchema ps"
  shows "\<exists>s'. propertiesLoop s ti T req props = Inr s' \<and> childrenDone s' ti T req (D \<union> fst ` set props)"
  using assms
proof (induction props arbitrary: s D)
  case Nil
  then show ?case by simp
next
  case (Cons a props)
  obtain p ps where a: "a = (p, ps)" by (cases a)
  have pD: "p \<notin> D" using Cons.prems(3) a by auto
  have prim: "isPrimitiveSchema ps" using Cons.prems(4) a by auto
  from childrenDone_step [OF Cons.prems(1) pD prim]
  obtain c s1 where
    res: "AnalyzeSchema s (Some ps) (generatePropertyTypeName T p) p = Inr (c, s1)" and
    cd: "childrenDone (setProperty ti p c (setRequired c (req p) s1)) ti T req (insert p D)"
    by blast
  have "\<exists>s'. propertiesLoop (setProperty ti p c (setRequired c (req p) s1)) ti T req props = Inr s'
          \<and> childrenDone s' ti T req (insert p D \<union> fst ` set props)"
  proof (rule Cons.IH [OF cd])
    show "distinct (map fst props)" using Cons.prems(2) by simp
    show "fst ` set props \<inter> insert p D = {}"
      using Cons.prems(2,3) a by auto
    show "\<forall>(p, ps) \<in> set props. isPrimitiveSchema ps" using Cons.prems(4) by simp
  qed
  then obtain s' where
    "propertiesLoop (setProperty ti p c (setRequired c (req p) s1)) ti T req props = Inr s'"
    "childrenDone s' ti T req (insert p D \<union> fst ` set props)"
    by blast
  moreover have "insert p D \<union> fst ` set props = D \<union> fst ` set (a # props)"
    using a by auto
  ultimately show ?case using res a by simp
qed

lemma getGoTypeFromSchema_object:
  "Type schema = ''object'' \<Longrightarrow> Properties schema \<noteq> [] \<Longrightarrow>
     getGoTypeFromSchema schema typeName = Inr typeName"
  by (subst getGoTypeFromSchema.simps) simp

lemma flat_object_analysis:
  assumes wf: "wellFormed s" and miss: "typeCache s (typeName @ ''_'' @ fieldName) = None"
    and obj: "Type schema = ''object''" and ne: "Properties schema \<noteq> []"
    and dist: "distinct (map fst (Properties schema))"
    and prim: "\<forall>(p, ps) \<in> set (Properties schema). isPrimitiveSchema ps"
  shows "\<exists>s' m. AnalyzeSchema s (Some schema) typeName fieldName = Inr (length (store s), s')
     \<and> Properties_t (store s' ! length (store s)) = Some m
     \<and> (\<forall>(p, ps) \<in> set (Properties schema).
           \<exists>c. m p = Some c \<and> Required_t (store s' ! c) = (p \<in> set (Required schema)))"
proof -
  let ?a = "length (store s)"
  let ?req = "requiredLoop (\<lambda>_. False) (Required schema)"
  let ?s0 = "makeProperties ?a (initTypeInfo typeName fieldName schema typeName s)"
  have valid: "\<And>k a. typeCache s k = Some a \<Longrightarrow> a < length (store s)"
    using wf unfolding wellFormed_def by blast
  have cd0: "childrenDone ?s0 ?a typeName ?req {}"
    unfolding childrenDone_def
  proof (intro conjI)
    show "wellFormed ?s0"
      using wf unfolding wellFormed_def by (auto dest: less_SucI)
    show "?a < length (store ?s0)" by simp
    show "?a \<notin> ran (typeCache ?s0)" using valid by (auto simp: ran_def)
    show "\<exists>m. Properties_t (store ?s0 ! ?a) = Some m \<and> (\<forall>p\<in>{}. \<exists>c. m p = Some c
        \<and> typeCache ?s0 (generatePropertyTypeName typeName p @ ''_'' @ p) = Some c
        \<and> Required_t (store ?s0 ! c) = ?req p)"
      by (simp add: store_makeProperties)
  qed
  from propertiesLoop_flat [OF cd0 dist _ prim]
  obtain s1 where loop: "propertiesLoop ?s0 ?a typeName ?req (Properties schema) = Inr s1"
    and cd1: "childrenDone s1 ?a typeName ?req (fst ` set (Properties schema))"
    by auto
  let ?s' = "setCache (typeName @ ''_'' @ fieldName) ?a s1"
  have res: "AnalyzeSchema s (Some schema) typeName fieldName = Inr (?a, ?s')"
    using loop obj ne
    by (simp add: AnalyzeSchema_miss [OF miss] getGoTypeFromSchema_object objectBlock_def arrayBlock_def)
  from cd1 obtain m where m: "Properties_t (store s1 ! ?a) = Some m"
    and ch: "\<forall>p \<in> fst ` set (Properties schema). \<exists>c. m p = Some c
        \<and> typeCache s1 (generatePropertyTypeName typeName p @ ''_'' @ p) = Some c
        \<and> Required_t (store s1 ! c) = ?req p"
    unfolding childrenDone_def by blast
  have "\<forall>(p, ps) \<in> set (Properties schema).
           \<exists>c. m p = Some c \<and> Required_t (store ?s' ! c) = (p \<in> set (Required schema))"
  proof (intro ballI, clarify)
    fix p ps assume "(p, ps) \<in> set (Properties schema)"
    then have "p \<in> fst ` set (Properties schema)" by force
    with ch obtain c where "m p = Some c" "Required_t (store s1 ! c) = ?req p" by blast
    then show "\<exists>c. m p = Some c \<and> Required_t (store ?s' ! c) = (p \<in> set (Required schema))"
      by (simp add: requiredLoop_member)
  qed
  then show ?thesis using res m by auto
qed

lemma extends_refl: "wellFormed s \<Longrightarrow> extends s s"
  by (simp add: extends_def)

lemma extends_wellFormed: "extends s s' \<Longrightarrow> wellFormed s'"
  by (simp add: extends_def)

lemma extends_not_cached:
  assumes "extends s s'" "x < length (store s)" "x \<notin> ran (typeCache s)"
  shows "x \<notin> ran (typeCache s')" "x < length (store s')"
    "Required_t (store s' ! x) = Required_t (store s ! x)"
proof -
  show "x \<notin> ran (typeCache s')"
  proof
    assume "x \<in> ran (typeCache s')"
    then obtain k where "typeCache s' k = Some x" by (auto simp: ran_def)
    then have "typeCache s k = Some x \<or> length (store s) \<le> x"
      using assms(1) unfolding extends_def by blast
    then show False using assms(2,3) by (auto simp: ran_def)
  qed
  show "x < length (store s')" using assms(1,2) unfolding extends_def by simp
  show "Required_t (store s' ! x) = Required_t (store s ! x)"
    using assms unfolding extends_def by blast
qed

lemma extends_trans:
  assumes "extends s s1" "extends s1 s2"
  shows "extends s s2"
  unfolding extends_def
proof (intro conjI allI impI)
  show "wellFormed s2" using assms(2) by (rule extends_wellFormed)
  show "length (store s) \<le> length (store s2)"
    using assms unfolding extends_def by simp
next
  fix k b assume "typeCache s2 k = Some b"
  then have "typeCache s1 k = Some b \<or> length (store s1) \<le> b"
    using assms(2) unfolding extends_def by blast
  moreover have "length (store s) \<le> length (store s1)"
    using assms(1) unfolding extends_def by simp
  moreover have "typeCache s1 k = Some b \<Longrightarrow> typeCache s k = Some b \<or> length (store s) \<le> b"
    using assms(1) unfolding extends_def by blast
  ultimately show "typeCache s k = Some b \<or> length (store s) \<le> b" by auto
next
  fix x assume x: "x < length (store s)" "x \<notin> ran (typeCache s)"
  from extends_not_cached [OF assms(1) x]
  have "x \<notin> ran (typeCache s1)" "x < length (store s1)"
    "Required_t (store s1 ! x) = Required_t (store s ! x)" by simp_all
  then show "Required_t (store s2 ! x) = Required_t (store s ! x)"
    using extends_not_cached(3) [OF assms(2)] by simp
qed

lemma wellFormed_same:
  "wellFormed s \<Longrightarrow> typeCache s' = typeCache s \<Longrightarrow> length (store s) \<le> length (store s') \<Longrightarrow> wellFormed s'"
  unfolding wellFormed_def by (auto dest: less_le_trans)

lemma extends_initTypeInfo:
  "wellFormed s \<Longrightarrow> extends s (initTypeInfo typeName fieldName schema goType s)"
  unfolding extends_def
  by (auto intro: wellFormed_same simp: store_initTypeInfo_old)

lemma extends_makeProperties: "wellFormed s \<Longrightarrow> extends s (makeProperties p s)"
  unfolding extends_def by (auto intro: wellFormed_same simp: store_makeProperties)

lemma extends_setProperty: "wellFormed s \<Longrightarrow> extends s (setProperty p n q s)"
  unfolding extends_def by (auto intro: wellFormed_same simp: store_setProperty)

lemma store_setItems:
  "store (setItems p q s) ! x
     = (if x = p \<and> p < length (store s) then (store s ! p) \<lparr> Items_t := Some q \<rparr> else store s ! x)"
  by (cases "p < length (store s)") (auto simp: setItems_def nth_list_update list_update_beyond)

lemma extends_setItems: "wellFormed s \<Longrightarrow> extends s (setItems p q s)"
  unfolding extends_def by (auto intro: wellFormed_same simp: store_setItems)

lemma extends_setRequired:
  "wellFormed s \<Longrightarrow> p \<in> ran (typeCache s) \<Longrightarrow> extends s (setRequired p b s)"
  unfolding extends_def by (auto intro: wellFormed_same simp: store_setRequired)

lemma objectBlock_cases:
  assumes "objectBlock s typeInfo typeName schema = Inr s'"
  obtains
    (loop) "Type schema = ''object'' \<and> 0 < length (Properties schema)"
      "propertiesLoop (makeProperties typeInfo s) typeInfo typeName
         (requiredLoop (\<lambda>_. False) (Required schema)) (Properties schema) = Inr s'"
  | (skip) "s' = s"
  using assms unfolding objectBlock_def by (auto split: if_splits)

lemma extends_setCache_fresh:
  assumes ext: "extends s s2" and ext0: "extends s0 s2"
    and s0: "typeCache s0 = typeCache s" "length (store s0) = Suc (length (store s))"
    and wf: "wellFormed s"
  shows "extends s (setCache key (length (store s)) s2)"
proof -
  let ?a = "length (store s)"
  have wf2: "wellFormed s2" using ext by (rule extends_wellFormed)
  have alen: "?a < length (store s2)" using ext0 s0 unfolding extends_def by simp
  have fresh: "typeCache s2 k \<noteq> Some ?a" for k
  proof
    assume "typeCache s2 k = Some ?a"
    then have "typeCache s0 k = Some ?a \<or> length (store s0) \<le> ?a"
      using ext0 unfolding extends_def by blast
    then show False using s0 wf unfolding wellFormed_def by auto
  qed
  have wf': "wellFormed (setCache key ?a s2)"
    unfolding wellFormed_def
  proof (intro conjI allI impI)
    fix k a assume "typeCache (setCache key ?a s2) k = Some a"
    then show "a < length (store (setCache key ?a s2))"
      using wf2 alen unfolding wellFormed_def by (auto split: if_splits)
  next
    fix k k' a
    assume "typeCache (setCache key ?a s2) k = Some a \<and> typeCache (setCache key ?a s2) k' = Some a"
    then show "k = k'"
      using wf2 fresh unfolding wellFormed_def by (auto split: if_splits)
  qed
  show ?thesis
    unfolding extends_def
  proof (intro conjI allI impI)
    show "wellFormed (setCache key ?a s2)" by (fact wf')
    show "length (store s) \<le> length (store (setCache key ?a s2))" using alen by simp
  next
    fix k b assume "typeCache (setCache key ?a s2) k = Some b"
    then show "typeCache s k = Some b \<or> length (store s) \<le> b"
      using ext unfolding extends_def by (auto split: if_splits)
  next
    fix x assume "x < length (store s)" "x \<notin> ran (typeCache s)"
    then show "Required_t (store (setCache key ?a s2) ! x) = Required_t (store s ! x)"
      using ext unfolding extends_def by simp
  qed
qed

lemma AnalyzeSchema_extends:
  "\<forall>a s'. AnalyzeSchema s schema typeName fieldName = Inr (a, s') \<longrightarrow> wellFormed s
      \<longrightarrow> extends s s' \<and> a \<in> ran (typeCache s')"
  "\<forall>s'. propertiesLoop s typeInfo typeName requiredFields props = Inr s' \<longrightarrow> wellFormed s
      \<longrightarrow> extends s s'"
proof (induction s schema typeName fieldName and s typeInfo typeName requiredFields props
    rule: AnalyzeSchema_propertiesLoop.induct)
  case (1 s typeName fieldName)
  then show ?case by simp
next
  case (2 s schema typeName fieldName)
  show ?case
  proof (intro allI impI)
    fix a s'
    assume res: "AnalyzeSchema s (Some schema) typeName fieldName = Inr (a, s')" and wf: "wellFormed s"
    from res show "extends s s' \<and> a \<in> ran (typeCache s')"
    proof (cases rule: AnalyzeSchema_Some_cases)
      case hit
      then show ?thesis using wf by (auto simp: extends_refl ran_def)
    next
      case (miss goType s1 s2)
      let ?s0 = "initTypeInfo typeName fieldName schema goType s"
      have e0: "extends s ?s0" using wf by (rule extends_initTypeInfo)
      have wf0: "wellFormed ?s0" using e0 by (rule extends_wellFormed)
      have e1: "extends ?s0 s1"
        using miss(4)
      proof (cases rule: objectBlock_cases)
        case loop
        have "\<forall>s'. propertiesLoop (makeProperties a ?s0) a typeName
               (requiredLoop (\<lambda>_. False) (Required schema)) (Properties schema) = Inr s'
              \<longrightarrow> wellFormed (makeProperties a ?s0) \<longrightarrow> extends (makeProperties a ?s0) s'"
          using "2.IH"(1) [OF refl miss(1) refl refl miss(2) refl refl loop(1)]
          unfolding initTypeInfo_def miss(3) .
        moreover have "extends ?s0 (makeProperties a ?s0)" using wf0 by (rule extends_makeProperties)
        ultimately show ?thesis using loop(2) extends_trans extends_wellFormed by blast
      next
        case skip
        then show ?thesis using wf0 by (simp add: extends_refl)
      qed
      have wf1: "wellFormed s1" using e1 by (rule extends_wellFormed)
      have e2: "extends s1 s2"
        using miss(5)
      proof (cases rule: arrayBlock_cases)
        case (item its it itemInfo s1')
        have "\<forall>a s'. AnalyzeSchema s1 (Some it) (generateItemTypeName typeName) [] = Inr (a, s')
               \<longrightarrow> wellFormed s1 \<longrightarrow> extends s1 s' \<and> a \<in> ran (typeCache s')"
          using "2.IH"(2) [OF refl miss(1) refl refl miss(2) refl refl _ item(1) item(2) item(3), of s1]
            miss(4)
          unfolding initTypeInfo_def miss(3) objectBlock_def by simp
        then have "extends s1 s1'" using item(4) wf1 by blast
        moreover have "extends s1' (setItems a itemInfo s1')"
          using calculation by (intro extends_setItems extends_wellFormed)
        ultimately show ?thesis unfolding item(5) by (rule extends_trans)
      next
        case skip
        then show ?thesis using wf1 by (simp add: extends_refl)
      qed
      have e02: "extends ?s0 s2" using e1 e2 by (rule extends_trans)
      have e: "extends s s2" using e0 e02 by (rule extends_trans)
      have "extends s (setCache (typeName @ ''_'' @ fieldName) (length (store s)) s2)"
        by (rule extends_setCache_fresh [OF e e02 _ _ wf]) simp_all
      then show ?thesis unfolding miss(6) miss(3) by (auto simp: ran_def)
    qed
  qed
next
  case (3 s typeInfo typeName requiredFields)
  then show ?case by (simp add: extends_refl)
next
  case (4 s typeInfo typeName requiredFields propName propSchema rest)
  show ?case
  proof (intro allI impI)
    fix s'
    assume res: "propertiesLoop s typeInfo typeName requiredFields ((propName, propSchema) # rest) = Inr s'"
      and wf: "wellFormed s"
    from res show "extends s s'"
    proof (cases rule: propertiesLoop_Cons_cases)
      case (1 propInfo s1)
      let ?s2 = "setRequired propInfo (requiredFields propName) s1"
      let ?s3 = "setProperty typeInfo propName propInfo ?s2"
      have e1: "extends s s1" and pr: "propInfo \<in> ran (typeCache s1)"
        using "4.IH"(1) 1(1) wf by blast+
      have wf1: "wellFormed s1" using e1 by (rule extends_wellFormed)
      have e2: "extends s1 ?s2" using wf1 pr by (rule extends_setRequired)
      have e3: "extends ?s2 ?s3" using e2 by (intro extends_setProperty extends_wellFormed)
      have e13: "extends s ?s3" using e1 e2 e3 extends_trans by blast
      have "extends ?s3 s'"
        using "4.IH"(2) [OF 1(1) refl] 1(2) e3 extends_wellFormed by blast
      then show ?thesis using e13 extends_trans by blast
    qed
  qed
qed

lemma fresh_node_not_required:
  assumes res: "AnalyzeSchema s (Some schema) typeName fieldName = Inr (a, s')"
    and wf: "wellFormed s" and nc: "typeCache s (typeName @ ''_'' @ fieldName) = None"
  shows "a = length (store s) \<and> Required_t (store s' ! a) = False"
  using res
proof (cases rule: AnalyzeSchema_Some_cases)
  case hit
  then show ?thesis using nc by simp
next
  case (miss goType s1 s2)
  let ?s0 = "initTypeInfo typeName fieldName schema goType s"
  have wf0: "wellFormed ?s0" using extends_initTypeInfo [OF wf] by (rule extends_wellFormed)
  have a0: "a < length (store ?s0)" "a \<notin> ran (typeCache ?s0)" "Required_t (store ?s0 ! a) = False"
    using miss(3) wf unfolding wellFormed_def by (auto simp: ran_def store_initTypeInfo_new)
  have a1: "a < length (store s1) \<and> a \<notin> ran (typeCache s1) \<and> Required_t (store s1 ! a) = False
      \<and> wellFormed s1"
    using miss(4)
  proof (cases rule: objectBlock_cases)
    case loop
    let ?m = "makeProperties a ?s0"
    have wfm: "wellFormed ?m" using extends_makeProperties [OF wf0] by (rule extends_wellFormed)
    have am: "a < length (store ?m)" "a \<notin> ran (typeCache ?m)" "Required_t (store ?m ! a) = False"
      using a0 by (simp_all add: store_makeProperties)
    have "extends ?m s1" using AnalyzeSchema_extends(2) loop(2) wfm by blast
    then show ?thesis
      using extends_not_cached [OF _ am(1,2)] am(3) extends_wellFormed by auto
  next
    case skip
    then show ?thesis using a0 wf0 by simp
  qed
  have "Required_t (store s2 ! a) = False"
    using miss(5)
  proof (cases rule: arrayBlock_cases)
    case (item its it itemInfo s1')
    have "extends s1 s1'" using AnalyzeSchema_extends(1) item(4) a1 by blast
    then have "Required_t (store s1' ! a) = False"
      using extends_not_cached(3) [of s1 s1' a] a1 by simp
    then show ?thesis unfolding item(5) by (simp add: store_setItems)
  next
    case skip
    then show ?thesis using a1 by simp
  qed
  then show ?thesis using miss(3,6) by simp
qed

lemma wellFormed_NewSchemaAnalyzer: "wellFormed NewSchemaAnalyzer"
  by (simp add: wellFormed_def NewSchemaAnalyzer_def)

lemma AnalyzeSchema_wellFormed:
  "wellFormed s \<Longrightarrow> AnalyzeSchema s schema typeName fieldName = Inr (a, s') \<Longrightarrow> wellFormed s'"
  using AnalyzeSchema_extends(1) extends_wellFormed by blast

lemma name_node_returns:
  "isl (AnalyzeSchema NewSchemaAnalyzer (Some (schemaOfType ''string'')) ''WidgetName'' ''name'') = False"
  by code_simp

text \<open>
  Claim C4. Take a well-formed analyzer state, the empty analyzer for one, and an object node
  that is not in the cache and whose properties have primitive types. The property list may
  be any arrangement of the property map. The analysis returns a node whose property map
  holds, for each property, a child whose \<^verbatim>\<open>Required\<close> flag says whether the property's name
  is in the node's own required list. The flag comes from the parent: a node that
  \<^verbatim>\<open>AnalyzeSchema\<close> has just built, for any schema whatever, is returned with the flag false.
  The witness is the object with \<^verbatim>\<open>name: string\<close>, \<^verbatim>\<open>replicas: integer\<close> and the required
  list \<^verbatim>\<open>[name]\<close>, in both orders of its properties.
\<close>

theorem required_flag_threading:
  "(wellFormed s \<and> typeCache s (typeName @ ''_'' @ fieldName) = None
      \<and> Type schema = ''object'' \<and> Properties schema \<noteq> []
      \<and> distinct (map fst (Properties schema))
      \<and> (\<forall>(p, ps) \<in> set (Properties schema). isPrimitiveSchema ps)
    \<longrightarrow> (\<exists>a s' m. AnalyzeSchema s (Some schema) typeName fieldName = Inr (a, s')
          \<and> Properties_t (store s' ! a) = Some m
          \<and> (\<forall>(p, ps) \<in> set (Properties schema).
                \<exists>c. m p = Some c \<and> Required_t (store s' ! c) = (p \<in> set (Required schema)))))
   \<and> (wellFormed t \<and> typeCache t (tn @ ''_'' @ fn) = None
        \<and> AnalyzeSchema t (Some node) tn fn = Inr (b, t')
      \<longrightarrow> Required_t (store t' ! b) = False)"
proof (intro conjI impI)
  assume h: "wellFormed s \<and> typeCache s (typeName @ ''_'' @ fieldName) = None
      \<and> Type schema = ''object'' \<and> Properties schema \<noteq> []
      \<and> distinct (map fst (Properties schema))
      \<and> (\<forall>(p, ps) \<in> set (Properties schema). isPrimitiveSchema ps)"
  then have "\<exists>s' m. AnalyzeSchema s (Some schema) typeName fieldName = Inr (length (store s), s')
     \<and> Properties_t (store s' ! length (store s)) = Some m
     \<and> (\<forall>(p, ps) \<in> set (Properties schema).
           \<exists>c. m p = Some c \<and> Required_t (store s' ! c) = (p \<in> set (Required schema)))"
    by (intro flat_object_analysis) simp_all
  then show "\<exists>a s' m. AnalyzeSchema s (Some schema) typeName fieldName = Inr (a, s')
          \<and> Properties_t (store s' ! a) = Some m
          \<and> (\<forall>(p, ps) \<in> set (Properties schema).
                \<exists>c. m p = Some c \<and> Required_t (store s' ! c) = (p \<in> set (Required schema)))"
    by blast
next
  assume h: "wellFormed t \<and> typeCache t (tn @ ''_'' @ fn) = None
        \<and> AnalyzeSchema t (Some node) tn fn = Inr (b, t')"
  from h have "AnalyzeSchema t (Some node) tn fn = Inr (b, t')" "wellFormed t"
    "typeCache t (tn @ ''_'' @ fn) = None" by blast+
  then have "b = length (store t) \<and> Required_t (store t' ! b) = False"
    by (rule fresh_node_not_required)
  then show "Required_t (store t' ! b) = False" by blast
qed

theorem required_flag_threading_witness:
  "(\<exists>a s' m c d. AnalyzeSchema NewSchemaAnalyzer (Some widgetSchema) ''Widget'' [] = Inr (a, s')
        \<and> Properties_t (store s' ! a) = Some m
        \<and> m ''name'' = Some c \<and> Required_t (store s' ! c) = True
        \<and> m ''replicas'' = Some d \<and> Required_t (store s' ! d) = False)
   \<and> (\<exists>a s' m c d. AnalyzeSchema NewSchemaAnalyzer (Some widgetSchema_reordered) ''Widget'' [] = Inr (a, s')
        \<and> Properties_t (store s' ! a) = Some m
        \<and> m ''name'' = Some c \<and> Required_t (store s' ! c) = True
        \<and> m ''replicas'' = Some d \<and> Required_t (store s' ! d) = False)
   \<and> Required_t (store (snd (projr (AnalyzeSchema NewSchemaAnalyzer (Some (schemaOfType ''string''))
          ''WidgetName'' ''name'')))
        ! fst (projr (AnalyzeSchema NewSchemaAnalyzer (Some (schemaOfType ''string''))
          ''WidgetName'' ''name''))) = False"
proof -
  let ?r = "AnalyzeSchema NewSchemaAnalyzer (Some (schemaOfType ''string'')) ''WidgetName'' ''name''"
  have r: "?r = Inr (fst (projr ?r), snd (projr ?r))"
    using name_node_returns by (cases ?r) auto
  have nc: "typeCache NewSchemaAnalyzer k = None" for k
    by (simp add: NewSchemaAnalyzer_def)
  have w1: "Type widgetSchema = ''object'' \<and> Properties widgetSchema \<noteq> []
      \<and> distinct (map fst (Properties widgetSchema))
      \<and> (\<forall>(p, ps) \<in> set (Properties widgetSchema). isPrimitiveSchema ps)"
    by (simp add: widgetSchema_def objectSchema_def schemaOfType_def isPrimitiveSchema_def)
  have w2: "Type widgetSchema_reordered = ''object'' \<and> Properties widgetSchema_reordered \<noteq> []
      \<and> distinct (map fst (Properties widgetSchema_reordered))
      \<and> (\<forall>(p, ps) \<in> set (Properties widgetSchema_reordered). isPrimitiveSchema ps)"
    by (simp add: widgetSchema_reordered_def objectSchema_def schemaOfType_def isPrimitiveSchema_def)
  have p1: "Properties widgetSchema = [(''name'', schemaOfType ''string''), (''replicas'', schemaOfType ''integer'')]"
    "Required widgetSchema = [''name'']"
    by (simp_all add: widgetSchema_def objectSchema_def)
  have p2: "Properties widgetSchema_reordered = [(''replicas'', schemaOfType ''integer''), (''name'', schemaOfType ''string'')]"
    "Required widgetSchema_reordered = [''name'']"
    by (simp_all add: widgetSchema_reordered_def objectSchema_def)
  have a: "\<exists>a s' m c d. AnalyzeSchema NewSchemaAnalyzer (Some widgetSchema) ''Widget'' [] = Inr (a, s')
        \<and> Properties_t (store s' ! a) = Some m
        \<and> m ''name'' = Some c \<and> Required_t (store s' ! c) = True
        \<and> m ''replicas'' = Some d \<and> Required_t (store s' ! d) = False"
    using required_flag_threading [of NewSchemaAnalyzer "''Widget''" "[]" widgetSchema
        NewSchemaAnalyzer "''WidgetName''" "''name''" "schemaOfType ''string''"
        "fst (projr ?r)" "snd (projr ?r)"]
      wellFormed_NewSchemaAnalyzer nc w1
    unfolding p1 by auto
  have b: "\<exists>a s' m c d. AnalyzeSchema NewSchemaAnalyzer (Some widgetSchema_reordered) ''Widget'' [] = Inr (a, s')
        \<and> Properties_t (store s' ! a) = Some m
        \<and> m ''name'' = Some c \<and> Required_t (store s' ! c) = True
        \<and> m ''replicas'' = Some d \<and> Required_t (store s' ! d) = False"
    using required_flag_threading [of NewSchemaAnalyzer "''Widget''" "[]" widgetSchema_reordered
        NewSchemaAnalyzer "''WidgetName''" "''name''" "schemaOfType ''string''"
        "fst (projr ?r)" "snd (projr ?r)"]
      wellFormed_NewSchemaAnalyzer nc w2
    unfolding p2 by auto
  have c: "Required_t (store (snd (projr ?r)) ! fst (projr ?r)) = False"
    using required_flag_threading [of NewSchemaAnalyzer "''Widget''" "[]" widgetSchema
        NewSchemaAnalyzer "''WidgetName''" "''name''" "schemaOfType ''string''"
        "fst (projr ?r)" "snd (projr ?r)"]
      wellFormed_NewSchemaAnalyzer nc r
    by blast
  show ?thesis using a b c by blast
qed

section \<open>Emission: properties\<close>

text \<open>
  Claim C1. The two widget schemas are the same map of properties, visited in the two
  possible orders. \<^verbatim>\<open>appendSchemaStructure\<close> writes the properties in the order of the
  visit, so the two schema literals differ: from offset 90 one reads \<^verbatim>\<open>"name": \<close> and the
  other \<^verbatim>\<open>"replica\<close>. The analysis depends on the order as well, through its cache: for the
  object with the arrays \<^verbatim>\<open>tag\<close> and \<^verbatim>\<open>tags\<close> the shared element node
  \<^verbatim>\<open>WidgetTagItem\<close> is a \<^verbatim>\<open>string\<close> in one order and an \<^verbatim>\<open>int32\<close> in the other.
\<close>

theorem emission_follows_map_iteration_order:
  "set (Properties widgetSchema) = set (Properties widgetSchema_reordered)
   \<and> distinct (map fst (Properties widgetSchema))
   \<and> distinct (map fst (Properties widgetSchema_reordered))
   \<and> take 8 (drop 90 (convertSchemaToGoCode (Some widgetSchema) 0)) = [CHR 0x22] @ ''name'' @ [CHR 0x22] @ '': ''
   \<and> take 8 (drop 90 (convertSchemaToGoCode (Some widgetSchema_reordered) 0)) = [CHR 0x22] @ ''replica''
   \<and> convertSchemaToGoCode (Some widgetSchema) 0 \<noteq> convertSchemaToGoCode (Some widgetSchema_reordered) 0
   \<and> set (Properties tagSchema) = set (Properties tagSchema_reordered)
   \<and> map (\<lambda>t. (Name t, GoType t))
         (store (snd (projr (AnalyzeSchema NewSchemaAnalyzer (Some tagSchema) ''Widget'' []))))
       = [(''Widget'', ''Widget''), (''WidgetTag'', ''[]string''), (''WidgetTagItem'', ''string''),
          (''WidgetTags'', ''[]int32'')]
   \<and> map (\<lambda>t. (Name t, GoType t))
         (store (snd (projr (AnalyzeSchema NewSchemaAnalyzer (Some tagSchema_reordered) ''Widget'' []))))
       = [(''Widget'', ''Widget''), (''WidgetTags'', ''[]int32''), (''WidgetTagItem'', ''int32''),
          (''WidgetTag'', ''[]string'')]"
  by code_simp

section \<open>The generator: properties\<close>

text \<open>
  Claim C8, as stated, fails. \<^verbatim>\<open>GenerateToolset\<close> returns an error value only, and it
  persists the artifacts itself: run on the empty file system, it leaves the rendered
  files in the output directory.
\<close>

theorem generator_writes_files_counterexample:
  "fst (GenerateToolset exampleGenerator (Some ''Widget'') emptyFileSystem) = None
   \<and> files emptyFileSystem ''out/types.go'' = None
   \<and> files (snd (GenerateToolset exampleGenerator (Some ''Widget'') emptyFileSystem)) ''out/types.go''
       = Some ''package widgets''
   \<and> files (snd (GenerateToolset exampleGenerator (Some ''Widget'') emptyFileSystem)) ''out/schema.go''
       = Some ''package widgets''"
  by (simp add: GenerateToolset_def exampleGenerator_def emptyFileSystem_def MkdirAll_def
      generatedFiles_def generateFile_def Join_def Stat_def Create_def createTemplateData_def)

lemma generateFile_ok:
  assumes "generateFile g info template filename fs = (None, fs')"
  shows "\<exists>tmpl written. templates g template = Some tmpl
      \<and> tmpl (createTemplateData g info) = (written, None)
      \<and> fs' = fs \<lparr> files := (files fs)(Join (OutputDir (config g)) filename \<mapsto> written) \<rparr>"
  using assms unfolding generateFile_def Create_def
  by (auto simp: Let_def split: if_splits option.splits sum.splits prod.splits)

lemma Join_inj: "Join dir a = Join dir b \<Longrightarrow> a = b"
  by (simp add: Join_def)

lemma generateLoop_ok:
  assumes "generateLoop g info fl fs = (None, fs')" "distinct (map snd fl)"
  shows "(\<forall>(template, filename) \<in> set fl. \<exists>tmpl written. templates g template = Some tmpl
            \<and> tmpl (createTemplateData g info) = (written, None)
            \<and> files fs' (Join (OutputDir (config g)) filename) = Some written)
       \<and> (\<forall>p. p \<notin> Join (OutputDir (config g)) ` snd ` set fl \<longrightarrow> files fs' p = files fs p)
       \<and> dirs fs' = dirs fs"
  using assms
proof (induction fl arbitrary: fs)
  case Nil
  then show ?case by simp
next
  case (Cons a fl)
  obtain template filename where a: "a = (template, filename)" by (cases a)
  obtain r fs1 where gf: "generateFile g info template filename fs = (r, fs1)"
    by (cases "generateFile g info template filename fs")
  have r: "r = None" using Cons.prems(1) a gf by (cases r) auto
  have rest: "generateLoop g info fl fs1 = (None, fs')"
    using Cons.prems(1) a gf r by simp
  from generateFile_ok [OF gf [unfolded r]] obtain tmpl written where
    t: "templates g template = Some tmpl" "tmpl (createTemplateData g info) = (written, None)"
    "fs1 = fs \<lparr> files := (files fs)(Join (OutputDir (config g)) filename \<mapsto> written) \<rparr>"
    by blast
  have IH: "(\<forall>(template, filename) \<in> set fl. \<exists>tmpl written. templates g template = Some tmpl
            \<and> tmpl (createTemplateData g info) = (written, None)
            \<and> files fs' (Join (OutputDir (config g)) filename) = Some written)
       \<and> (\<forall>p. p \<notin> Join (OutputDir (config g)) ` snd ` set fl \<longrightarrow> files fs' p = files fs1 p)
       \<and> dirs fs' = dirs fs1"
    using Cons.IH [OF rest] Cons.prems(2) by simp
  have notin: "Join (OutputDir (config g)) filename \<notin> Join (OutputDir (config g)) ` snd ` set fl"
    using Cons.prems(2) a by (auto dest: Join_inj)
  then have this_file: "files fs' (Join (OutputDir (config g)) filename) = Some written"
    using IH t(3) by simp
  show ?case
  proof (intro conjI)
    show "\<forall>(template, filename) \<in> set (a # fl). \<exists>tmpl written. templates g template = Some tmpl
            \<and> tmpl (createTemplateData g info) = (written, None)
            \<and> files fs' (Join (OutputDir (config g)) filename) = Some written"
      using IH t this_file a by auto
    show "\<forall>p. p \<notin> Join (OutputDir (config g)) ` snd ` set (a # fl) \<longrightarrow> files fs' p = files fs p"
      using IH t(3) a by auto
    show "dirs fs' = dirs fs" using IH t(3) by simp
  qed
qed

text \<open>
  Claim C8, amended. \<^verbatim>\<open>GenerateToolset\<close> creates the output directory and writes each of
  the six rendered templates to its file there; it returns an error value and no text. When
  it returns nil, each of the six files holds exactly what its template rendered from the
  template data, and no file outside these six paths has changed.
\<close>

theorem generator_persists_artifacts:
  "GenerateToolset g (Some info) fs = (None, fs') \<longrightarrow>
     OutputDir (config g) \<in> dirs fs'
     \<and> (\<forall>(template, filename) \<in> set generatedFiles.
           \<exists>tmpl written. templates g template = Some tmpl
             \<and> tmpl (createTemplateData g info) = (written, None)
             \<and> files fs' (Join (OutputDir (config g)) filename) = Some written)
     \<and> (\<forall>p. p \<notin> Join (OutputDir (config g)) ` snd ` set generatedFiles \<longrightarrow> files fs' p = files fs p)"
proof
  assume res: "GenerateToolset g (Some info) fs = (None, fs')"
  let ?fs1 = "fs \<lparr> dirs := insert (OutputDir (config g)) (dirs fs) \<rparr>"
  have loop: "generateLoop g info generatedFiles ?fs1 = (None, fs')"
    using res unfolding GenerateToolset_def MkdirAll_def
    by (auto split: if_splits)
  have d: "distinct (map snd generatedFiles)" by (simp add: generatedFiles_def)
  from generateLoop_ok [OF loop d]
  show "OutputDir (config g) \<in> dirs fs'
     \<and> (\<forall>(template, filename) \<in> set generatedFiles.
           \<exists>tmpl written. templates g template = Some tmpl
             \<and> tmpl (createTemplateData g info) = (written, None)
             \<and> files fs' (Join (OutputDir (config g)) filename) = Some written)
     \<and> (\<forall>p. p \<notin> Join (OutputDir (config g)) ` snd ` set generatedFiles \<longrightarrow> files fs' p = files fs p)"
    by simp
qed

theorem generator_persists_artifacts_witness:
  "files (snd (GenerateToolset exampleGenerator (Some ''Widget'') emptyFileSystem)) (Join ''out'' ''handlers.go'')
     = Some ''package widgets''
   \<and> ''out'' \<in> dirs (snd (GenerateToolset exampleGenerator (Some ''Widget'') emptyFileSystem))"
proof -
  let ?r = "GenerateToolset exampleGenerator (Some ''Widget'') emptyFileSystem"
  have ok: "fst ?r = None"
    by (simp add: GenerateToolset_def exampleGenerator_def emptyFileSystem_def MkdirAll_def
      generatedFiles_def generateFile_def Join_def Stat_def Create_def createTemplateData_def)
  then have r: "?r = (None, snd ?r)" by (cases ?r) simp
  have mem: "(''handlers.go.tmpl'', ''handlers.go'') \<in> set generatedFiles"
    by (simp add: generatedFiles_def)
  have tm: "templates exampleGenerator ''handlers.go.tmpl''
      = Some (\<lambda>(cfg, kind). (''package '' @ PackageName cfg, None))"
    by (simp add: exampleGenerator_def generatedFiles_def)
  have cfg: "OutputDir (config exampleGenerator) = ''out''"
    "createTemplateData exampleGenerator ''Widget'' = (config exampleGenerator, ''Widget'')"
    "PackageName (config exampleGenerator) = ''widgets''"
    by (simp_all add: exampleGenerator_def createTemplateData_def)
  from generator_persists_artifacts [of exampleGenerator "''Widget''" emptyFileSystem "snd ?r"] r
  have all: "OutputDir (config exampleGenerator) \<in> dirs (snd ?r)
     \<and> (\<forall>(template, filename) \<in> set generatedFiles.
           \<exists>tmpl written. templates exampleGenerator template = Some tmpl
             \<and> tmpl (createTemplateData exampleGenerator ''Widget'') = (written, None)
             \<and> files (snd ?r) (Join (OutputDir (config exampleGenerator)) filename) = Some written)"
    by blast
  then obtain tmpl written where
    "templates exampleGenerator ''handlers.go.tmpl'' = Some tmpl"
    "tmpl (createTemplateData exampleGenerator ''Widget'') = (written, None)"
    "files (snd ?r) (Join (OutputDir (config exampleGenerator)) ''handlers.go'') = Some written"
    using mem by blast
  then show ?thesis using all tm cfg by auto
qed

section \<open>Case conversion: properties\<close>

subsection \<open>A rune outside ASCII\<close>

lemma inRanges_member:
  "(lo, hi, stride) \<in> set tbl \<Longrightarrow> lo \<le> r \<Longrightarrow> r \<le> hi \<Longrightarrow> (r - lo) mod stride = 0 \<Longrightarrow> inRanges r tbl"
  by (induction tbl) auto

lemma IsUpper_03D2: "IsUpper 0x3D2"
proof -
  have "inRanges 0x3D2 unicode_Upper"
    by (rule inRanges_member [of "0x3D2" "0x3D4" 1]) (simp_all add: unicode_Upper_def)
  then show ?thesis by (simp add: IsUpper_def)
qed

lemma ToLower_03D2: "ToLower 0x3D2 = 0x3D2"
  by (simp add: ToLower_def unicode_toLower_def)

lemma IsSpace_03D2: "\<not> IsSpace 0x3D2"
  by (simp add: IsSpace_def)

subsection \<open>ASCII runes\<close>

lemma IsUpper_ASCII: "r < 128 \<Longrightarrow> IsUpper r = isUpperASCII r"
  by (auto simp: IsUpper_def isUpperASCII_def)

lemma ToLower_ASCII: "r < 128 \<Longrightarrow> ToLower r = lowerRune r"
  by (auto simp: ToLower_def lowerRune_def isUpperASCII_def)

lemma IsSpace_ASCII: "r < 128 \<Longrightarrow> IsSpace r \<longleftrightarrow> r = 9 \<or> r = 10 \<or> r = 11 \<or> r = 12 \<or> r = 13 \<or> r = 32"
  by (auto simp: IsSpace_def)

lemma lowerRune_ASCII: "r < 128 \<Longrightarrow> lowerRune r < 128"
  by (auto simp: lowerRune_def isUpperASCII_def)

lemma lowerRune_not_upper: "\<not> isUpperASCII (lowerRune r)"
  by (auto simp: lowerRune_def isUpperASCII_def)

lemma lowerRune_fixed: "\<not> isUpperASCII r \<Longrightarrow> lowerRune r = r"
  by (simp add: lowerRune_def)

lemma lowerRune_cases: "lowerRune r = r \<or> isLowerASCII (lowerRune r)"
  by (auto simp: lowerRune_def isUpperASCII_def isLowerASCII_def)

lemma letter_not_separator:
  "isUpperASCII r \<or> isLowerASCII r \<Longrightarrow> \<not> isSeparator r"
  by (auto simp: isSeparator_def isUpperASCII_def isLowerASCII_def IsSpace_def rune_of_def)

text \<open>
  Claim C9, as stated, fails. The rune \<open>U+03D2\<close> (Greek upsilon with hook symbol) is an
  upper-case letter without a lower-case form, so \<^verbatim>\<open>unicode.ToLower\<close> returns it
  unchanged. \<^verbatim>\<open>toSnakeCase\<close> puts an underscore in front of it whenever it is not the
  first rune, and does so again on its own output; \<^verbatim>\<open>toKebabCase\<close> does the same with a
  hyphen.
\<close>

theorem snake_case_counterexample:
  "toCase Snake [0x61, 0x3D2] = [0x61, 0x5F, 0x3D2]
   \<and> toCase Snake (toCase Snake [0x61, 0x3D2]) = [0x61, 0x5F, 0x5F, 0x3D2]
   \<and> toCase Snake (toCase Snake [0x61, 0x3D2]) \<noteq> toCase Snake [0x61, 0x3D2]
   \<and> toCase Kebab [0x61, 0x3D2] = [0x61, 0x2D, 0x3D2]
   \<and> toCase Kebab (toCase Kebab [0x61, 0x3D2]) = [0x61, 0x2D, 0x2D, 0x3D2]
   \<and> toCase Kebab (toCase Kebab [0x61, 0x3D2]) \<noteq> toCase Kebab [0x61, 0x3D2]"
proof -
  have a: "\<not> IsUpper 0x61" "\<not> IsUpper 0x5F" "\<not> IsUpper 0x2D"
    "\<not> IsSpace 0x61" "\<not> IsSpace 0x5F" "\<not> IsSpace 0x2D"
    by (simp_all add: IsUpper_ASCII IsSpace_ASCII isUpperASCII_def)
  show ?thesis
    by (simp add: toSnakeCase_def toKebabCase_def a IsUpper_03D2 ToLower_03D2 IsSpace_03D2
        rune_of_def)
qed

subsection \<open>Snake and kebab case\<close>

lemma snakeLoop_stable_id:
  "\<forall>r \<in> set s. snakeStable r \<Longrightarrow> snakeLoop i result s = result @ s"
  by (induction s arbitrary: i result) (auto simp: snakeStable_def)

lemma snakeStable_lower: "r < 128 \<Longrightarrow> IsUpper r \<Longrightarrow> snakeStable (ToLower r)"
  by (auto simp: snakeStable_def IsUpper_ASCII ToLower_ASCII lowerRune_ASCII lowerRune_not_upper
      IsSpace_ASCII lowerRune_def isUpperASCII_def rune_of_def)

lemma snakeStable_underscore: "snakeStable (rune_of CHR ''_'')"
  by (simp add: snakeStable_def IsUpper_ASCII IsSpace_ASCII isUpperASCII_def rune_of_def)

lemma snakeLoop_stable:
  "\<forall>r \<in> set s. r < 128 \<Longrightarrow> \<forall>r \<in> set result. snakeStable r
     \<Longrightarrow> \<forall>r \<in> set (snakeLoop i result s). snakeStable r"
proof (induction s arbitrary: i result)
  case Nil
  then show ?case by simp
next
  case (Cons r rs)
  have rs: "\<forall>r \<in> set rs. r < 128" and r: "r < 128" using Cons.prems(1) by simp_all
  show ?case
  proof (cases "IsUpper r")
    case True
    have "\<forall>x \<in> set ((if i > 0 then result @ [rune_of CHR ''_''] else result) @ [ToLower r]). snakeStable x"
      using Cons.prems(2) snakeStable_lower [OF r True] snakeStable_underscore by auto
    from Cons.IH [OF rs this] True show ?thesis by simp
  next
    case False
    show ?thesis
    proof (cases "r = rune_of CHR ''-'' \<or> r = rune_of CHR ''.'' \<or> IsSpace r")
      case True
      have "\<forall>x \<in> set (result @ [rune_of CHR ''_'']). snakeStable x"
        using Cons.prems(2) snakeStable_underscore by auto
      from Cons.IH [OF rs this] True \<open>\<not> IsUpper r\<close> show ?thesis by simp
    next
      case no: False
      have "\<forall>x \<in> set (result @ [r]). snakeStable x"
        using Cons.prems(2) no False by (auto simp: snakeStable_def)
      from Cons.IH [OF rs this] no False show ?thesis by simp
    qed
  qed
qed

lemma toSnakeCase_idempotent:
  assumes "\<forall>r \<in> set s. r < 128"
  shows "toSnakeCase (toSnakeCase s) = toSnakeCase s"
proof (cases "s = []")
  case True
  then show ?thesis by (simp add: toSnakeCase_def)
next
  case False
  have "\<forall>r \<in> set (snakeLoop 0 [] s). snakeStable r"
    using assms by (intro snakeLoop_stable) simp_all
  then have "snakeLoop 0 [] (snakeLoop 0 [] s) = snakeLoop 0 [] s"
    by (simp add: snakeLoop_stable_id)
  then show ?thesis using False by (simp add: toSnakeCase_def)
qed

lemma kebabLoop_stable_id:
  "\<forall>r \<in> set s. kebabStable r \<Longrightarrow> kebabLoop i result s = result @ s"
  by (induction s arbitrary: i result) (auto simp: kebabStable_def)

lemma kebabStable_lower: "r < 128 \<Longrightarrow> IsUpper r \<Longrightarrow> kebabStable (ToLower r)"
  by (auto simp: kebabStable_def IsUpper_ASCII ToLower_ASCII lowerRune_ASCII lowerRune_not_upper
      IsSpace_ASCII lowerRune_def isUpperASCII_def rune_of_def)

lemma kebabStable_hyphen: "kebabStable (rune_of CHR ''-'')"
  by (simp add: kebabStable_def IsUpper_ASCII IsSpace_ASCII isUpperASCII_def rune_of_def)

lemma kebabLoop_stable:
  "\<forall>r \<in> set s. r < 128 \<Longrightarrow> \<forall>r \<in> set result. kebabStable r
     \<Longrightarrow> \<forall>r \<in> set (kebabLoop i result s). kebabStable r"
proof (induction s arbitrary: i result)
  case Nil
  then show ?case by simp
next
  case (Cons r rs)
  have rs: "\<forall>r \<in> set rs. r < 128" and r: "r < 128" using Cons.prems(1) by simp_all
  show ?case
  proof (cases "IsUpper r")
    case True
    have "\<forall>x \<in> set ((if i > 0 then result @ [rune_of CHR ''-''] else result) @ [ToLower r]). kebabStable x"
      using Cons.prems(2) kebabStable_lower [OF r True] kebabStable_hyphen by auto
    from Cons.IH [OF rs this] True show ?thesis by simp
  next
    case False
    show ?thesis
    proof (cases "r = rune_of CHR ''_'' \<or> r = rune_of CHR ''.'' \<or> IsSpace r")
      case True
      have "\<forall>x \<in> set (result @ [rune_of CHR ''-'']). kebabStable x"
        using Cons.prems(2) kebabStable_hyphen by auto
      from Cons.IH [OF rs this] True \<open>\<not> IsUpper r\<close> show ?thesis by simp
    next
      case no: False
      have "\<forall>x \<in> set (result @ [r]). kebabStable x"
        using Cons.prems(2) no False by (auto simp: kebabStable_def)
      from Cons.IH [OF rs this] no False show ?thesis by simp
    qed
  qed
qed

lemma toKebabCase_idempotent:
  assumes "\<forall>r \<in> set s. r < 128"
  shows "toKebabCase (toKebabCase s) = toKebabCase s"
proof (cases "s = []")
  case True
  then show ?thesis by (simp add: toKebabCase_def)
next
  case False
  have "\<forall>r \<in> set (kebabLoop 0 [] s). kebabStable r"
    using assms by (intro kebabLoop_stable) simp_all
  then have "kebabLoop 0 [] (kebabLoop 0 [] s) = kebabLoop 0 [] s"
    by (simp add: kebabLoop_stable_id)
  then show ?thesis using False by (simp add: toKebabCase_def)
qed

subsection \<open>The title caser\<close>

lemma titleLoop_Cons:
  "titleLoop m w (r # rs) = titleOut m w r # titleLoop (titleMid m w r) (titleWas r) rs"
  by (simp add: titleOut_def titleMid_def titleWas_def Let_def)

lemma titleLoop_append:
  "titleLoop m w (xs @ ys) = titleLoop m w xs @ titleLoop (fst (titleState m w xs)) (snd (titleState m w xs)) ys"
  by (induction xs arbitrary: m w) (simp_all add: titleLoop_Cons del: titleLoop.simps(2))

lemma titleState_append:
  "titleState m w (xs @ ys) = titleState (fst (titleState m w xs)) (snd (titleState m w xs)) ys"
  by (induction xs arbitrary: m w) simp_all

lemma titleLoop_elements:
  "y \<in> set (titleLoop m w xs) \<Longrightarrow> y \<in> set xs \<or> isUpperASCII y \<or> isLowerASCII y"
proof (induction xs arbitrary: m w)
  case Nil
  then show ?case by simp
next
  case (Cons r rs)
  have out: "titleOut m w r = r \<or> isUpperASCII (titleOut m w r) \<or> isLowerASCII (titleOut m w r)"
    by (auto simp: titleOut_def titleRune_def lowerRune_def isUpperASCII_def isLowerASCII_def Let_def)
  from Cons.prems have "y = titleOut m w r \<or> y \<in> set (titleLoop (titleMid m w r) (titleWas r) rs)"
    by (simp add: titleLoop_Cons del: titleLoop.simps(2))
  then show ?case using out Cons.IH by auto
qed

lemma titleParts_concat:
  "titleParts result parts = result @ concat (map (\<lambda>p. Title (ToLower_runes p)) parts)"
  by (induction parts arbitrary: result) (simp_all add: Title_def ToLower_runes_def)

lemma titleWord_no_separator:
  assumes "\<forall>r \<in> set p. r < 128 \<and> \<not> isSeparator r" and "y \<in> set (Title (ToLower_runes p))"
  shows "\<not> isSeparator y"
proof -
  from assms(2) have "y \<in> set (ToLower_runes p) \<or> isUpperASCII y \<or> isLowerASCII y"
    unfolding Title_def by (rule titleLoop_elements)
  moreover have "\<not> isSeparator y" if "y \<in> set (ToLower_runes p)"
  proof -
    from that obtain r where r: "r \<in> set p" "y = ToLower r" by (auto simp: ToLower_runes_def)
    then have y: "y = lowerRune r" using assms(1) by (simp add: ToLower_ASCII)
    show ?thesis using lowerRune_cases [of r] y r(1) assms(1) letter_not_separator by auto
  qed
  ultimately show ?thesis using letter_not_separator by blast
qed

subsection \<open>Fields and words\<close>

lemma fieldsLoop_subset:
  "part \<in> set (fieldsLoop f cur s) \<Longrightarrow> set part \<subseteq> set cur \<union> set s"
proof (induction s arbitrary: cur)
  case Nil
  then show ?case by (auto split: if_splits)
next
  case (Cons r rs)
  show ?case
  proof (cases "f r")
    case True
    then show ?thesis using Cons.prems Cons.IH [of "[]"] by (auto split: if_splits)
  next
    case False
    then show ?thesis using Cons.prems Cons.IH [of "cur @ [r]"] by auto
  qed
qed

lemma fieldsLoop_nonempty: "[] \<notin> set (fieldsLoop f cur s)"
proof (induction s arbitrary: cur)
  case Nil
  then show ?case by simp
next
  case (Cons r rs)
  show ?case using Cons.IH [of "[]"] Cons.IH [of "cur @ [r]"] by auto
qed

lemma fieldsLoop_single:
  "\<forall>r \<in> set s. \<not> f r \<Longrightarrow> cur @ s \<noteq> [] \<Longrightarrow> fieldsLoop f cur s = [cur @ s]"
  by (induction s arbitrary: cur) auto

lemma splitLoop_concat:
  "concat (splitLoop i words cur rs) = concat words @ cur @ rs"
  by (induction rs arbitrary: i words cur) auto

lemma splitLoop_nonempty_words:
  "[] \<notin> set words \<Longrightarrow> [] \<notin> set (splitLoop i words cur rs)"
  by (induction rs arbitrary: i words cur) auto

lemma splitLoop_words:
  "splitLoop i words cur rs = words @ splitLoop i [] cur rs"
proof (induction rs arbitrary: i words cur)
  case Nil
  then show ?case by simp
next
  case (Cons r rs)
  show ?case
  proof (cases "i > 0 \<and> IsUpper r \<and> length cur > 0")
    case True
    have "splitLoop (Suc i) (words @ [cur]) [r] rs = (words @ [cur]) @ splitLoop (Suc i) [] [r] rs"
      by (rule Cons.IH)
    moreover have "splitLoop (Suc i) [cur] [r] rs = [cur] @ splitLoop (Suc i) [] [r] rs"
      by (rule Cons.IH)
    ultimately show ?thesis using True by simp
  next
    case False
    have "splitLoop (Suc i) words (cur @ [r]) rs = words @ splitLoop (Suc i) [] (cur @ [r]) rs"
      by (rule Cons.IH)
    then show ?thesis using False by auto
  qed
qed

lemma splitLoop_not_Nil: "cur \<noteq> [] \<or> rs \<noteq> [] \<Longrightarrow> splitLoop i words cur rs \<noteq> []"
  by (induction rs arbitrary: i words cur) auto

subsection \<open>Split and title in one pass\<close>

lemma onePass_upper:
  "i > 0 \<and> IsUpper r \<Longrightarrow>
   onePass lowerOnly m w i (r # rs)
     = titleOut False False (ToLower r)
         # onePass False (titleMid False False (ToLower r)) (titleWas (ToLower r)) (Suc i) rs"
  by simp

lemma onePass_lower:
  "\<not> (i > 0 \<and> IsUpper r) \<Longrightarrow>
   onePass True m w i (r # rs) = ToLower r # onePass True m w (Suc i) rs"
  by auto

lemma onePass_title:
  "\<not> (i > 0 \<and> IsUpper r) \<Longrightarrow>
   onePass False m w i (r # rs)
     = titleOut m w (ToLower r) # onePass False (titleMid m w (ToLower r)) (titleWas (ToLower r)) (Suc i) rs"
  by auto

lemma split_title_onePass:
  "(i > 0 \<longrightarrow> cur \<noteq> []) \<Longrightarrow>
   concat (map (\<lambda>p. Title (ToLower_runes p)) (splitLoop i words cur rs))
     = concat (map (\<lambda>p. Title (ToLower_runes p)) words) @ Title (ToLower_runes cur)
       @ onePass False (fst (titleState False False (ToLower_runes cur)))
           (snd (titleState False False (ToLower_runes cur))) i rs"
proof (induction rs arbitrary: i words cur)
  case Nil
  then show ?case by (simp add: Title_def ToLower_runes_def)
next
  case (Cons r rs)
  show ?case
  proof (cases "i > 0 \<and> IsUpper r")
    case True
    then have cur: "cur \<noteq> []" using Cons.prems by simp
    have "concat (map (\<lambda>p. Title (ToLower_runes p)) (splitLoop (Suc i) (words @ [cur]) [r] rs))
            = concat (map (\<lambda>p. Title (ToLower_runes p)) (words @ [cur])) @ Title (ToLower_runes [r])
              @ onePass False (fst (titleState False False (ToLower_runes [r])))
                  (snd (titleState False False (ToLower_runes [r]))) (Suc i) rs"
      by (rule Cons.IH) simp
    then show ?thesis using True cur
      by (simp add: Title_def ToLower_runes_def titleLoop_Cons onePass_upper [OF True]
          del: titleLoop.simps(2) onePass.simps(2))
  next
    case False
    have "concat (map (\<lambda>p. Title (ToLower_runes p)) (splitLoop (Suc i) words (cur @ [r]) rs))
            = concat (map (\<lambda>p. Title (ToLower_runes p)) words) @ Title (ToLower_runes (cur @ [r]))
              @ onePass False (fst (titleState False False (ToLower_runes (cur @ [r]))))
                  (snd (titleState False False (ToLower_runes (cur @ [r])))) (Suc i) rs"
      by (rule Cons.IH) simp
    moreover have "splitLoop i words cur (r # rs) = splitLoop (Suc i) words (cur @ [r]) rs"
      using False by auto
    ultimately show ?thesis
      by (simp add: Title_def ToLower_runes_def titleLoop_Cons titleLoop_append titleState_append
          onePass_title [OF False] del: titleLoop.simps(2) splitLoop.simps(2) onePass.simps(2))
  qed
qed

lemma split_camel_onePass:
  "(i > 0 \<longrightarrow> cur \<noteq> []) \<Longrightarrow> cur \<noteq> [] \<or> rs \<noteq> [] \<Longrightarrow>
   ToLower_runes (hd (splitLoop i [] cur rs))
     @ concat (map (\<lambda>p. Title (ToLower_runes p)) (tl (splitLoop i [] cur rs)))
     = ToLower_runes cur @ onePass True m w i rs"
proof (induction rs arbitrary: i cur)
  case Nil
  then show ?case by simp
next
  case (Cons r rs)
  show ?case
  proof (cases "i > 0 \<and> IsUpper r")
    case True
    then have cur: "cur \<noteq> []" using Cons.prems by simp
    have "splitLoop i [] cur (r # rs) = splitLoop (Suc i) [cur] [r] rs"
      using True cur by simp
    also have "\<dots> = cur # splitLoop (Suc i) [] [r] rs"
      using splitLoop_words [of "Suc i" "[cur]" "[r]" rs] by simp
    finally have eq: "splitLoop i [] cur (r # rs) = cur # splitLoop (Suc i) [] [r] rs" .
    have "concat (map (\<lambda>p. Title (ToLower_runes p)) (splitLoop (Suc i) [] [r] rs))
            = concat (map (\<lambda>p. Title (ToLower_runes p)) []) @ Title (ToLower_runes [r])
              @ onePass False (fst (titleState False False (ToLower_runes [r])))
                  (snd (titleState False False (ToLower_runes [r]))) (Suc i) rs"
      by (rule split_title_onePass) simp
    then show ?thesis
      by (simp add: eq Title_def ToLower_runes_def titleLoop_Cons onePass_upper [OF True]
          del: titleLoop.simps(2) splitLoop.simps(2) onePass.simps(2))
  next
    case False
    have eq: "splitLoop i [] cur (r # rs) = splitLoop (Suc i) [] (cur @ [r]) rs"
      using False by auto
    have "ToLower_runes (hd (splitLoop (Suc i) [] (cur @ [r]) rs))
            @ concat (map (\<lambda>p. Title (ToLower_runes p)) (tl (splitLoop (Suc i) [] (cur @ [r]) rs)))
            = ToLower_runes (cur @ [r]) @ onePass True m w (Suc i) rs"
      by (rule Cons.IH) simp_all
    then show ?thesis
      by (simp add: eq ToLower_runes_def onePass_lower [OF False]
          del: splitLoop.simps(2) onePass.simps(2))
  qed
qed

subsection \<open>The pass copies a converted text\<close>

lemma passInv_step:
  assumes inv: "passInv lowerOnly p pw g gw i"
    and x: "x < 128" "\<not> isUpperASCII x"
  shows "\<exists>lowerOnly' g' gw'.
           passInv lowerOnly' (titleMid p pw x) (titleWas x) g' gw' (Suc i)
           \<and> (\<forall>rest. onePass lowerOnly g gw i (titleOut p pw x # rest)
                       = titleOut p pw x # onePass lowerOnly' g' gw' (Suc i) rest)"
proof (cases "isLowerASCII x")
  case letter: True
  then have nomid: "\<not> isMidASCII x"
    by (auto simp: isLowerASCII_def isMidASCII_def)
  have low: "lowerRune x = x" using x(2) by (rule lowerRune_fixed)
  have next_state: "titleMid p pw x = True" "titleWas x = False"
    using letter by (simp_all add: titleMid_def titleWas_def Let_def)
  show ?thesis
  proof (cases p)
    case False
    have out: "titleOut p pw x = x - 32"
      using letter False nomid by (simp add: titleOut_def titleRune_def Let_def)
    have up: "x - 32 < 128" "isUpperASCII (x - 32)" "lowerRune (x - 32) = x"
      using letter by (auto simp: isLowerASCII_def isUpperASCII_def lowerRune_def)
    have U: "IsUpper (x - 32)" and L: "ToLower (x - 32) = x"
      using up by (simp_all add: IsUpper_ASCII ToLower_ASCII)
    have t: "titleOut False False x = x - 32" "titleMid False False x = True"
      using letter by (simp_all add: titleOut_def titleMid_def titleRune_def Let_def)
    have "onePass lowerOnly g gw i ((x - 32) # rest) = (x - 32) # onePass False True False (Suc i) rest"
      for rest
    proof (cases "i > 0")
      case True
      then show ?thesis using U L t next_state by simp
    next
      case i0: False
      then have "\<not> lowerOnly" "\<not> g" using inv by (auto simp: passInv_def split: if_splits)
      moreover have "titleOut False gw x = x - 32" "titleMid False gw x = True"
        using letter nomid by (simp_all add: titleOut_def titleMid_def titleRune_def Let_def)
      ultimately show ?thesis using i0 L next_state by simp
    qed
    moreover have "passInv False (titleMid p pw x) (titleWas x) True False (Suc i)"
      by (simp add: passInv_def next_state)
    ultimately show ?thesis unfolding out by blast
  next
    case True
    then have lo: "\<not> lowerOnly" and g: "g = True" "gw = pw"
      using inv by (auto simp: passInv_def split: if_splits)
    have out: "titleOut p pw x = x"
      using letter True nomid low by (simp add: titleOut_def Let_def)
    have U: "\<not> IsUpper x" and L: "ToLower x = x"
      using x low by (simp_all add: IsUpper_ASCII ToLower_ASCII)
    have t: "titleOut True pw x = x" "titleMid True pw x = True"
      using letter nomid low by (simp_all add: titleOut_def titleMid_def Let_def)
    have "onePass lowerOnly g gw i (x # rest) = x # onePass False True False (Suc i) rest" for rest
      using lo g U L t next_state by simp
    moreover have "passInv False (titleMid p pw x) (titleWas x) True False (Suc i)"
      by (simp add: passInv_def next_state)
    ultimately show ?thesis unfolding out by blast
  qed
next
  case other: False
  have out: "titleOut q qw x = x" for q qw
    using other x(2) by (simp add: titleOut_def Let_def)
  have was: "titleWas x = isMidASCII x"
    using other x(2) by (simp add: titleWas_def)
  have U: "\<not> IsUpper x" and L: "ToLower x = x"
    using x by (simp_all add: IsUpper_ASCII ToLower_ASCII lowerRune_fixed)
  show ?thesis
  proof (cases lowerOnly)
    case True
    then have p: "\<not> p" and i: "i > 0" using inv by (simp_all add: passInv_def)
    have "\<not> titleMid p pw x"
      using p other x(2) by (simp add: titleMid_def Let_def)
    then have "passInv True (titleMid p pw x) (titleWas x) g gw (Suc i)"
      by (simp add: passInv_def)
    moreover have "onePass lowerOnly g gw i (x # rest) = x # onePass True g gw (Suc i) rest" for rest
      using True U L by simp
    ultimately show ?thesis unfolding out by blast
  next
    case False
    then have eq: "p \<longrightarrow> g = p \<and> gw = pw" using inv by (simp add: passInv_def)
    have mid: "titleMid p pw x \<longrightarrow> p"
      using other x(2) by (auto simp: titleMid_def Let_def split: if_splits)
    have "passInv False (titleMid p pw x) (titleWas x) (titleMid g gw x) (titleWas x) (Suc i)"
      using eq mid by (auto simp: passInv_def)
    moreover have "onePass lowerOnly g gw i (x # rest)
                     = x # onePass False (titleMid g gw x) (titleWas x) (Suc i) rest" for rest
      using False U L out by simp
    ultimately show ?thesis unfolding out by blast
  qed
qed

lemma passInv_word:
  "passInv lowerOnly p pw g gw i \<Longrightarrow> \<forall>x \<in> set xs. x < 128 \<and> \<not> isUpperASCII x \<Longrightarrow>
   \<exists>lowerOnly' g' gw'.
      passInv lowerOnly' (fst (titleState p pw xs)) (snd (titleState p pw xs)) g' gw' (i + length xs)
      \<and> (\<forall>rest. onePass lowerOnly g gw i (titleLoop p pw xs @ rest)
                  = titleLoop p pw xs @ onePass lowerOnly' g' gw' (i + length xs) rest)"
proof (induction xs arbitrary: lowerOnly p pw g gw i)
  case Nil
  then show ?case by auto
next
  case (Cons x xs)
  have x: "x < 128" "\<not> isUpperASCII x" and xs: "\<forall>x \<in> set xs. x < 128 \<and> \<not> isUpperASCII x"
    using Cons.prems(2) by simp_all
  from passInv_step [OF Cons.prems(1) x]
  obtain l1 g1 gw1 where
    inv1: "passInv l1 (titleMid p pw x) (titleWas x) g1 gw1 (Suc i)" and
    run1: "\<And>rest. onePass lowerOnly g gw i (titleOut p pw x # rest)
                     = titleOut p pw x # onePass l1 g1 gw1 (Suc i) rest"
    by blast
  from Cons.IH [OF inv1 xs]
  obtain l2 g2 gw2 where
    inv2: "passInv l2 (fst (titleState (titleMid p pw x) (titleWas x) xs))
             (snd (titleState (titleMid p pw x) (titleWas x) xs)) g2 gw2 (Suc i + length xs)" and
    run2: "\<And>rest. onePass l1 g1 gw1 (Suc i) (titleLoop (titleMid p pw x) (titleWas x) xs @ rest)
                     = titleLoop (titleMid p pw x) (titleWas x) xs @ onePass l2 g2 gw2 (Suc i + length xs) rest"
    by blast
  have "passInv l2 (fst (titleState p pw (x # xs))) (snd (titleState p pw (x # xs))) g2 gw2
          (i + length (x # xs))"
    using inv2 by simp
  moreover have "onePass lowerOnly g gw i (titleLoop p pw (x # xs) @ rest)
                   = titleLoop p pw (x # xs) @ onePass l2 g2 gw2 (i + length (x # xs)) rest" for rest
    using run1 run2 by (simp add: titleLoop_Cons del: titleLoop.simps(2) onePass.simps(2))
  ultimately show ?case by blast
qed

lemma ToLower_runes_ASCII:
  "\<forall>r \<in> set p. r < 128 \<Longrightarrow> \<forall>x \<in> set (ToLower_runes p). x < 128 \<and> \<not> isUpperASCII x"
  by (auto simp: ToLower_runes_def ToLower_ASCII lowerRune_ASCII lowerRune_not_upper)

lemma onePass_words:
  "(if lowerOnly then i > 0 else (i = 0 \<longrightarrow> \<not> g)) \<Longrightarrow> \<forall>p \<in> set ws. \<forall>r \<in> set p. r < 128 \<Longrightarrow>
   onePass lowerOnly g gw i (concat (map (\<lambda>p. Title (ToLower_runes p)) ws))
     = concat (map (\<lambda>p. Title (ToLower_runes p)) ws)"
proof (induction ws arbitrary: lowerOnly g gw i)
  case Nil
  then show ?case by simp
next
  case (Cons p ws)
  have inv: "passInv lowerOnly False False g gw i"
    using Cons.prems(1) by (simp add: passInv_def split: if_splits)
  have xs: "\<forall>x \<in> set (ToLower_runes p). x < 128 \<and> \<not> isUpperASCII x"
    using Cons.prems(2) by (intro ToLower_runes_ASCII) simp
  from passInv_word [OF inv xs]
  obtain l1 g1 gw1 where
    inv1: "passInv l1 (fst (titleState False False (ToLower_runes p)))
             (snd (titleState False False (ToLower_runes p))) g1 gw1 (i + length (ToLower_runes p))" and
    run1: "\<And>rest. onePass lowerOnly g gw i (titleLoop False False (ToLower_runes p) @ rest)
                     = titleLoop False False (ToLower_runes p) @ onePass l1 g1 gw1 (i + length (ToLower_runes p)) rest"
    by blast
  have "if l1 then i + length (ToLower_runes p) > 0 else (i + length (ToLower_runes p) = 0 \<longrightarrow> \<not> g1)"
    using inv1 by (simp add: passInv_def split: if_splits)
  moreover have "\<forall>p \<in> set ws. \<forall>r \<in> set p. r < 128" using Cons.prems(2) by simp
  ultimately have "onePass l1 g1 gw1 (i + length (ToLower_runes p))
                     (concat (map (\<lambda>p. Title (ToLower_runes p)) ws))
                   = concat (map (\<lambda>p. Title (ToLower_runes p)) ws)"
    by (rule Cons.IH)
  then show ?case using run1 by (simp add: Title_def)
qed

lemma onePass_lower_prefix:
  "\<forall>x \<in> set xs. x < 128 \<and> \<not> isUpperASCII x \<Longrightarrow>
   onePass True g gw i (xs @ rest) = xs @ onePass True g gw (i + length xs) rest"
  by (induction xs arbitrary: i) (simp_all add: IsUpper_ASCII ToLower_ASCII lowerRune_fixed)

subsection \<open>Pascal and camel case\<close>

text \<open>The parts that \<^verbatim>\<open>toCamelCase\<close> and \<^verbatim>\<open>toPascalCase\<close> convert.\<close>

lemma parts_ASCII:
  assumes "\<forall>r \<in> set s. r < 128"
    and "parts = (let parts = FieldsFunc isSeparator s
                  in if length parts = 1 then splitCamelCase (parts ! 0) else parts)"
  shows "\<forall>p \<in> set parts. p \<noteq> [] \<and> (\<forall>r \<in> set p. r < 128 \<and> \<not> isSeparator r)"
proof -
  let ?fields = "FieldsFunc isSeparator s"
  have fields: "p \<noteq> [] \<and> (\<forall>r \<in> set p. r < 128 \<and> \<not> isSeparator r)" if "p \<in> set ?fields" for p
  proof -
    have "p \<noteq> []" using that fieldsLoop_nonempty [of isSeparator "[]" s]
      by (auto simp: FieldsFunc_def)
    moreover have "set p \<subseteq> set s"
      using that fieldsLoop_subset [of p isSeparator "[]" s] by (simp add: FieldsFunc_def)
    moreover have "\<not> isSeparator r" if "r \<in> set p" for r
      using fieldsLoop_no_separator [of "[]" isSeparator p s r] \<open>p \<in> set ?fields\<close> that
      by (simp add: FieldsFunc_def)
    ultimately show ?thesis using assms(1) by auto
  qed
  show ?thesis
  proof (cases "length ?fields = 1")
    case False
    then have "parts = ?fields" using assms(2) by (simp add: Let_def)
    then show ?thesis using fields by simp
  next
    case True
    then have parts: "parts = splitLoop 0 [] [] (?fields ! 0)"
      using assms(2) by (simp add: Let_def splitCamelCase_def)
    have f0: "?fields ! 0 \<in> set ?fields" using True by (intro nth_mem) simp
    have "concat parts = ?fields ! 0"
      unfolding parts by (simp add: splitLoop_concat)
    then have sub: "set p \<subseteq> set (?fields ! 0)" if "p \<in> set parts" for p
      using that by (metis UN_I set_concat subsetI)
    have "[] \<notin> set parts"
      unfolding parts by (rule splitLoop_nonempty_words) simp
    then show ?thesis using sub fields [OF f0] by (metis subsetD)
  qed
qed

lemma words_no_separator:
  assumes "\<forall>p \<in> set ws. \<forall>r \<in> set p. r < 128 \<and> \<not> isSeparator r"
    and "y \<in> set (concat (map (\<lambda>p. Title (ToLower_runes p)) ws))"
  shows "\<not> isSeparator y"
proof -
  from assms(2) obtain p where p: "p \<in> set ws" "y \<in> set (Title (ToLower_runes p))" by auto
  then show ?thesis using assms(1) titleWord_no_separator [of p y] by blast
qed

lemma lowered_no_separator:
  assumes "\<forall>r \<in> set p. r < 128 \<and> \<not> isSeparator r" and "y \<in> set (ToLower_runes p)"
  shows "\<not> isSeparator y"
proof -
  from assms(2) obtain r where r: "r \<in> set p" "y = ToLower r" by (auto simp: ToLower_runes_def)
  then have y: "y = lowerRune r" using assms(1) by (simp add: ToLower_ASCII)
  show ?thesis using lowerRune_cases [of r] y r(1) assms(1) letter_not_separator by auto
qed

lemma FieldsFunc_single:
  "X \<noteq> [] \<Longrightarrow> \<forall>y \<in> set X. \<not> isSeparator y \<Longrightarrow> FieldsFunc isSeparator X = [X]"
  using fieldsLoop_single [of X isSeparator "[]"] by (simp add: FieldsFunc_def)

lemma toPascalCase_idempotent:
  assumes ascii: "\<forall>r \<in> set s. r < 128"
  shows "toPascalCase (toPascalCase s) = toPascalCase s"
proof (cases "s = []")
  case True
  then show ?thesis by (simp add: toPascalCase_def)
next
  case False
  define parts where "parts = (let parts = FieldsFunc isSeparator s
                               in if length parts = 1 then splitCamelCase (parts ! 0) else parts)"
  define X where "X = concat (map (\<lambda>p. Title (ToLower_runes p)) parts)"
  have X: "toPascalCase s = X"
    using False by (simp add: toPascalCase_def parts_def X_def titleParts_concat Let_def)
  have parts: "\<forall>p \<in> set parts. p \<noteq> [] \<and> (\<forall>r \<in> set p. r < 128 \<and> \<not> isSeparator r)"
    using ascii parts_def by (rule parts_ASCII)
  show ?thesis
  proof (cases "X = []")
    case True
    have "toPascalCase [] = []" by (simp add: toPascalCase_def)
    then show ?thesis using True by (simp add: X)
  next
    case nonempty: False
    have nosep: "\<forall>y \<in> set X. \<not> isSeparator y"
      using parts words_no_separator [of parts] unfolding X_def by blast
    have fields: "FieldsFunc isSeparator X = [X]"
      using nonempty nosep by (rule FieldsFunc_single)
    have "toPascalCase X = concat (map (\<lambda>p. Title (ToLower_runes p)) (splitLoop 0 [] [] X))"
      using nonempty by (simp add: toPascalCase_def fields splitCamelCase_def titleParts_concat)
    also have "\<dots> = onePass False False False 0 X"
      using split_title_onePass [of 0 "[]" "[]" X] by (simp add: Title_def ToLower_runes_def)
    also have "\<dots> = X"
      unfolding X_def using parts by (intro onePass_words) auto
    finally show ?thesis by (simp add: X)
  qed
qed

lemma toCamelCase_idempotent:
  assumes ascii: "\<forall>r \<in> set s. r < 128"
  shows "toCamelCase (toCamelCase s) = toCamelCase s"
proof (cases "s = []")
  case True
  then show ?thesis by (simp add: toCamelCase_def)
next
  case False
  define parts where "parts = (let parts = FieldsFunc isSeparator s
                               in if length parts = 1 then splitCamelCase (parts ! 0) else parts)"
  have parts: "\<forall>p \<in> set parts. p \<noteq> [] \<and> (\<forall>r \<in> set p. r < 128 \<and> \<not> isSeparator r)"
    using ascii parts_def by (rule parts_ASCII)
  show ?thesis
  proof (cases "parts = []")
    case True
    then have "toCamelCase s = s"
      using False unfolding toCamelCase_def parts_def by (simp add: Let_def)
    then show ?thesis by simp
  next
    case some: False
    then obtain p0 rest where split: "parts = p0 # rest" by (cases parts) auto
    define Y where "Y = concat (map (\<lambda>p. Title (ToLower_runes p)) rest)"
    define X where "X = ToLower_runes p0 @ Y"
    have "toCamelCase s = titleParts (ToLower_runes (parts ! 0)) (tl parts)"
      using False some unfolding toCamelCase_def parts_def by (simp add: Let_def)
    then have X: "toCamelCase s = X"
      by (simp add: split X_def Y_def titleParts_concat)
    have p0: "p0 \<noteq> []" "\<forall>r \<in> set p0. r < 128 \<and> \<not> isSeparator r"
      and rest: "\<forall>p \<in> set rest. \<forall>r \<in> set p. r < 128 \<and> \<not> isSeparator r"
      using parts split by auto
    have nonempty: "X \<noteq> []" using p0(1) by (simp add: X_def ToLower_runes_def)
    have nosep: "\<forall>y \<in> set X. \<not> isSeparator y"
      using lowered_no_separator [OF p0(2)] words_no_separator [OF rest] by (auto simp: X_def Y_def)
    have fields: "FieldsFunc isSeparator X = [X]"
      using nonempty nosep by (rule FieldsFunc_single)
    have words: "splitLoop 0 [] [] X \<noteq> []"
      using nonempty by (intro splitLoop_not_Nil) simp
    have "toCamelCase X = titleParts (ToLower_runes (splitLoop 0 [] [] X ! 0)) (tl (splitLoop 0 [] [] X))"
      using nonempty words by (simp add: toCamelCase_def fields splitCamelCase_def Let_def)
    also have "\<dots> = ToLower_runes (hd (splitLoop 0 [] [] X))
                      @ concat (map (\<lambda>p. Title (ToLower_runes p)) (tl (splitLoop 0 [] [] X)))"
      using words by (simp add: titleParts_concat hd_conv_nth)
    also have "\<dots> = ToLower_runes [] @ onePass True False False 0 X"
      using nonempty by (intro split_camel_onePass) simp_all
    also have "\<dots> = onePass True False False 0 (ToLower_runes p0 @ Y)"
      by (simp add: X_def ToLower_runes_def)
    also have "\<dots> = ToLower_runes p0 @ onePass True False False (0 + length (ToLower_runes p0)) Y"
      using p0(2) by (intro onePass_lower_prefix ToLower_runes_ASCII) simp
    also have "onePass True False False (0 + length (ToLower_runes p0)) Y = Y"
      unfolding Y_def using rest p0(1) by (intro onePass_words) (auto simp: ToLower_runes_def)
    finally show ?thesis by (simp add: X X_def)
  qed
qed

text \<open>
  Claim C9, amended. For each of the four case variants (camel, Pascal, snake, kebab) and
  every string of ASCII runes, applying the conversion twice equals applying it once.
\<close>

theorem case_conversion_idempotent_on_ascii:
  "\<forall>r \<in> set s. r < 128 \<Longrightarrow> toCase V (toCase V s) = toCase V s"
  by (cases V)
    (simp_all add: toCamelCase_idempotent toPascalCase_idempotent toSnakeCase_idempotent
      toKebabCase_idempotent)

theorem case_conversion_idempotent_on_ascii_witness:
  "toCase Camel (runes ''ThreeWordsHere'') = runes ''threeWordsHere''
   \<and> toCase Camel (toCase Camel (runes ''ThreeWordsHere'')) = toCase Camel (runes ''ThreeWordsHere'')
   \<and> toCase Pascal (runes ''ThreeWordsHere'') = runes ''ThreeWordsHere''
   \<and> toCase Pascal (toCase Pascal (runes ''ThreeWordsHere'')) = toCase Pascal (runes ''ThreeWordsHere'')
   \<and> toCase Snake (runes ''ThreeWordsHere'') = runes ''three_words_here''
   \<and> toCase Snake (toCase Snake (runes ''ThreeWordsHere'')) = toCase Snake (runes ''ThreeWordsHere'')
   \<and> toCase Kebab (runes ''ThreeWordsHere'') = runes ''three-words-here''
   \<and> toCase Kebab (toCase Kebab (runes ''ThreeWordsHere'')) = toCase Kebab (runes ''ThreeWordsHere'')"
  using case_conversion_idempotent_on_ascii [of "runes ''ThreeWordsHere''" Camel]
    case_conversion_idempotent_on_ascii [of "runes ''ThreeWordsHere''" Pascal]
    case_conversion_idempotent_on_ascii [of "runes ''ThreeWordsHere''" Snake]
    case_conversion_idempotent_on_ascii [of "runes ''ThreeWordsHere''" Kebab]
  by (simp add: runes_def rune_of_def toCamelCase_def toPascalCase_def toSnakeCase_def
      toKebabCase_def FieldsFunc_def isSeparator_def IsSpace_def IsUpper_def ToLower_def
      splitCamelCase_def ToLower_runes_def Title_def titleRune_def lowerRune_def
      isUpperASCII_def isLowerASCII_def isMidASCII_def isBreakASCII_def Let_def)

end
